theory Spec2Isabelle
  imports Complex_Main
begin

section \<open>Balance-sheet validation and flattening (question2/utils.py)\<close>

text \<open>
  The module validates a parsed balance-sheet document and flattens it into rows:
  \<^item> \<open>validate_balance_sheet_json_schema\<close> checks the top-level shape,
  \<^item> \<open>validate_balance_sheet_equation\<close> checks that every parent's value matches the
    sum of its children and that assets equal liabilities plus equity,
  \<^item> \<open>get_all_child_values\<close> collects one row per node that carries an account id
    and builds a \<open>polars\<close> data frame from the rows.

  The functions receive the result of \<open>json.load\<close>, so the input is modelled as a
  Python value built from \<open>None\<close>, \<open>bool\<close>, \<open>int\<close>, \<open>float\<close>, \<open>str\<close>, \<open>list\<close> and
  \<open>dict\<close>. Every exception of the source is a value \<open>Inl e\<close> of the result type;
  \<open>rows.append\<close> and the logger are explicit state.
\<close>

subsection \<open>Data model\<close>

text \<open>
  Python values as \<open>json.load\<close> produces them. The type \<open>'f\<close> is the type of Python
  floats. A dict is an association list in insertion order, the first binding of a key
  being the effective one (a parsed object has each key once).
\<close>

datatype 'f json =
    JNull
  | JBool bool
  | JInt int
  | JFloat 'f
  | JStr string
  | JArr "'f json list"
  | JObj "(string \<times> 'f json) list"

text \<open>
  The exceptions the module can raise. \<open>ValueError\<close> and \<open>AssertionError\<close> carry their
  message, \<open>KeyError\<close> the missing key. \<open>ValidationError\<close> is
  \<open>jsonschema.exceptions.ValidationError\<close>.
\<close>

datatype error =
    KeyError string
  | TypeError
  | ValueError string
  | OverflowError
  | AssertionError string
  | ValidationError

text \<open>
  One collected row: the dict \<open>{"account_id": ..., "path": ..., "name": ..., "value": ...}\<close>
  that \<open>traverse_node\<close> appends. \<open>account_id\<close> and \<open>name\<close> are stored as found in the
  node, \<open>value\<close> is converted by \<open>float\<close>.
\<close>

record 'f row =
  row_account_id :: "'f json"
  row_path :: string
  row_name :: "'f json"
  row_value :: 'f

text \<open>
  The part of the Python runtime the module relies on and that is not fixed here: the
  binary floating-point arithmetic behind \<open>float\<close>, \<open>+\<close>, \<open>-\<close>, \<open>abs\<close>, \<open>>\<close>, \<open>==\<close> and
  \<open>sum\<close>, the conversion of an \<open>int\<close> (\<open>None\<close>: OverflowError) and of a \<open>str\<close>
  (\<open>None\<close>: ValueError) by \<open>float(...)\<close>, the literal \<open>0.01\<close>, and the text that an
  f-string produces for a value that is not a \<open>str\<close>. All functions below take the
  runtime as their first argument, and the theorems hold for every runtime.
  \<open>fl_sum\<close> is \<open>sum\<close> over the floats a generator yields; for no element \<open>sum\<close>
  returns the integer 0, which the subtraction that follows converts to a float, so
  \<open>fl_sum F []\<close> stands for that zero.
  The last field is the library call \<open>pl.DataFrame(rows)\<close> on a list of row dicts:
  the exception it raises, or the data frame, given by its rows as the frame stores
  them (the frame may store the values of a column in a common type).
\<close>

record 'f runtime =
  float_of_int :: "int \<Rightarrow> 'f option"
  float_of_str :: "string \<Rightarrow> 'f option"
  str_other :: "'f json \<Rightarrow> string"
  fl_add :: "'f \<Rightarrow> 'f \<Rightarrow> 'f"
  fl_sub :: "'f \<Rightarrow> 'f \<Rightarrow> 'f"
  fl_abs :: "'f \<Rightarrow> 'f"
  fl_gt :: "'f \<Rightarrow> 'f \<Rightarrow> bool"
  fl_eq :: "'f \<Rightarrow> 'f \<Rightarrow> bool"
  fl_sum :: "'f list \<Rightarrow> 'f"
  fl_tol :: "'f"
  data_frame :: "'f row list \<Rightarrow> error + 'f row list"

text \<open>
  A log record. The error record of \<open>validate_node_sum\<close> is kept as the three values
  its f-string interpolates: the node's name, the node's value and the sum of the
  children.
\<close>

datatype 'f log_record =
    Info string
  | ValueMismatchLogged string 'f 'f

subsection \<open>Results, exceptions and the log\<close>

definition and_then :: "error + 'a \<Rightarrow> ('a \<Rightarrow> error + 'b) \<Rightarrow> error + 'b" where
  "and_then m f = (case m of Inl e \<Rightarrow> Inl e | Inr x \<Rightarrow> f x)"

definition silent :: "error + 'a \<Rightarrow> (error + 'a) \<times> 'f log_record list" where
  "silent r = (r, [])"

definition logged_then ::
  "(error + 'a) \<times> 'f log_record list \<Rightarrow> ('a \<Rightarrow> (error + 'b) \<times> 'f log_record list)
     \<Rightarrow> (error + 'b) \<times> 'f log_record list" where
  "logged_then m f =
     (case fst m of
        Inl e \<Rightarrow> (Inl e, snd m)
      | Inr x \<Rightarrow> (fst (f x), snd m @ snd (f x)))"

text \<open>
  The two rules below tell the function package that the continuation of a step runs
  only on the value the step returned.
\<close>

lemma and_then_cong [fundef_cong]:
  "m = m' \<Longrightarrow> (\<And>x. m' = Inr x \<Longrightarrow> f x = f' x) \<Longrightarrow> and_then m f = and_then m' f'"
  by (cases m') (simp_all add: and_then_def)

lemma logged_then_cong [fundef_cong]:
  "m = m' \<Longrightarrow> (\<And>x. fst m' = Inr x \<Longrightarrow> f x = f' x) \<Longrightarrow> logged_then m f = logged_then m' f'"
  by (cases "fst m'") (simp_all add: logged_then_def)

subsection \<open>Python operations on parsed values\<close>

text \<open>\<open>k in s\<close> for two strings: \<open>k\<close> occurs in \<open>s\<close> as a contiguous piece.\<close>

fun is_substring :: "string \<Rightarrow> string \<Rightarrow> bool" where
  "is_substring k [] = (k = [])"
| "is_substring k (c # s) = (take (length k) (c # s) = k \<or> is_substring k s)"

text \<open>
  \<open>k in x\<close> for a string \<open>k\<close>: a key of a dict, an element of a list, a piece of a
  string; \<open>None\<close>, a bool and a number are not iterable (TypeError).
\<close>

fun py_contains :: "string \<Rightarrow> 'f json \<Rightarrow> error + bool" where
  "py_contains k (JObj kvs) = Inr (k \<in> set (map fst kvs))"
| "py_contains k (JArr xs) = Inr (JStr k \<in> set xs)"
| "py_contains k (JStr s) = Inr (is_substring k s)"
| "py_contains k _ = Inl TypeError"

text \<open>
  \<open>x[k]\<close> for a string \<open>k\<close>: the value of a dict, KeyError when the key is missing;
  every other value refuses a string subscript (TypeError).
\<close>

fun py_getitem :: "'f json \<Rightarrow> string \<Rightarrow> error + 'f json" where
  "py_getitem (JObj kvs) k = (case map_of kvs k of None \<Rightarrow> Inl (KeyError k) | Some v \<Rightarrow> Inr v)"
| "py_getitem _ k = Inl TypeError"

text \<open>
  The elements \<open>for child in x\<close> visits: the elements of a list, the keys of a dict,
  the characters of a string (one per \<open>char\<close> here, so one per code point for ASCII
  text); anything else is not iterable (TypeError).
\<close>

fun py_iter :: "'f json \<Rightarrow> error + 'f json list" where
  "py_iter (JArr xs) = Inr xs"
| "py_iter (JObj kvs) = Inr (map (\<lambda>kv. JStr (fst kv)) kvs)"
| "py_iter (JStr s) = Inr (map (\<lambda>c. JStr [c]) s)"
| "py_iter _ = Inl TypeError"

text \<open>\<open>float(x)\<close>.\<close>

fun py_float :: "'f runtime \<Rightarrow> 'f json \<Rightarrow> error + 'f" where
  "py_float F (JFloat x) = Inr x"
| "py_float F (JInt n) =
     (case float_of_int F n of None \<Rightarrow> Inl OverflowError | Some x \<Rightarrow> Inr x)"
| "py_float F (JBool b) =
     (case float_of_int F (if b then 1 else 0) of None \<Rightarrow> Inl OverflowError | Some x \<Rightarrow> Inr x)"
| "py_float F (JStr s) =
     (case float_of_str F s of
        None \<Rightarrow> Inl (ValueError ''could not convert string to float'')
      | Some x \<Rightarrow> Inr x)"
| "py_float F _ = Inl TypeError"

text \<open>The text of \<open>{x}\<close> inside an f-string: a string is inserted as it is.\<close>

fun py_str :: "'f runtime \<Rightarrow> 'f json \<Rightarrow> string" where
  "py_str F (JStr s) = s"
| "py_str F v = str_other F v"

subsection \<open>get_all_child_values\<close>

text \<open>
  A measure for the recursion over a parsed value: every value reached through
  \<open>node["items"]\<close> and the loop over it is smaller than the node.
\<close>

fun jsize :: "'f json \<Rightarrow> nat" where
  "jsize (JStr s) = 1 + length s"
| "jsize (JArr xs) = 1 + sum_list (map (\<lambda>x. 1 + jsize x) xs)"
| "jsize (JObj kvs) = 1 + sum_list (map (\<lambda>(k, v). 2 + length k + 3 * jsize v) kvs)"
| "jsize _ = 1"

definition items_size :: "'f json list \<Rightarrow> nat" where
  "items_size cs = sum_list (map (\<lambda>x. 1 + jsize x) cs)"

text \<open>
  The condition of the \<open>if\<close> in \<open>traverse_node\<close>:
  \<open>"value" in node and "account_id" in node and node["account_id"] is not None\<close>,
  evaluated left to right, stopping at the first false operand.
\<close>

definition emit_condition :: "'f json \<Rightarrow> error + bool" where
  "emit_condition node =
     and_then (py_contains ''value'' node) (\<lambda>has_value.
       if \<not> has_value then Inr False
       else
     and_then (py_contains ''account_id'' node) (\<lambda>has_account.
       if \<not> has_account then Inr False
       else
     and_then (py_getitem node ''account_id'') (\<lambda>a. Inr (a \<noteq> JNull))))"

text \<open>
  The dict that is appended; its entries are evaluated in the order \<open>account_id\<close>,
  \<open>path\<close>, \<open>name\<close>, \<open>value\<close>.
\<close>

definition row_dict :: "'f runtime \<Rightarrow> 'f json \<Rightarrow> string \<Rightarrow> error + 'f row" where
  "row_dict F node current_path =
     and_then (py_getitem node ''account_id'') (\<lambda>a.
     and_then (py_getitem node ''name'') (\<lambda>n.
     and_then (and_then (py_getitem node ''value'') (py_float F)) (\<lambda>v.
     Inr \<lparr>row_account_id = a, row_path = current_path, row_name = n, row_value = v\<rparr>)))"

text \<open>
  \<open>traverse_node\<close> with the list \<open>rows\<close> it appends to as explicit state: the function
  returns the list after the call, or the exception that ended it.
  \<open>traverse_items\<close> is the loop \<open>for child in node["items"]\<close>; \<open>child_path\<close> is
  computed from the parent \<open>node\<close> anew in every iteration, so \<open>node["name"]\<close> is read
  only when there is a child. With an empty \<open>current_path\<close> the source hands on
  \<open>node["name"]\<close> as it is; the model renders it as text there too. No call that
  \<open>get_all_child_values\<close> makes has an empty path: it starts from the section key, and
  every path built below contains a \<open>/\<close>. The recursion is bounded by the size of the
  value only: the interpreter's recursion limit is not modelled.
\<close>

function traverse_node ::
    "'f runtime \<Rightarrow> 'f json \<Rightarrow> string \<Rightarrow> 'f row list \<Rightarrow> error + 'f row list"
  and traverse_items ::
    "'f runtime \<Rightarrow> 'f json \<Rightarrow> string \<Rightarrow> 'f json list \<Rightarrow> 'f row list \<Rightarrow> error + 'f row list"
where
  "traverse_node F node current_path rows =
     and_then (emit_condition node) (\<lambda>emit.
     and_then (if emit
               then and_then (row_dict F node current_path) (\<lambda>r. Inr (rows @ [r]))
               else Inr rows) (\<lambda>rows1.
     and_then (py_contains ''items'' node) (\<lambda>has_items.
       if has_items
       then and_then (and_then (py_getitem node ''items'') py_iter) (\<lambda>children.
            traverse_items F node current_path children rows1)
       else Inr rows1)))"
| "traverse_items F node current_path [] rows = Inr rows"
| "traverse_items F node current_path (child # rest) rows =
     and_then (py_getitem node ''name'') (\<lambda>n.
     and_then (traverse_node F child
                (if current_path \<noteq> [] then current_path @ ''/'' @ py_str F n else py_str F n)
                rows) (\<lambda>rows1.
     traverse_items F node current_path rest rows1))"
  by pat_completeness auto

text \<open>
  The loop \<open>for section in ["assets", "liabilities", "equity"]\<close>; \<open>collect_rows\<close> is
  the body of the function up to its last line, yielding the list \<open>rows\<close> in the order
  of the appends; the function itself returns \<open>pl.DataFrame(rows)\<close>.
\<close>

fun process_sections ::
  "'f runtime \<Rightarrow> 'f json \<Rightarrow> string list \<Rightarrow> 'f row list \<Rightarrow> error + 'f row list" where
  "process_sections F balance_sheet_data [] rows = Inr rows"
| "process_sections F balance_sheet_data (section # rest) rows =
     and_then (py_contains section balance_sheet_data) (\<lambda>present.
     and_then (if present
               then and_then (py_getitem balance_sheet_data section) (\<lambda>tree.
                    traverse_node F tree section rows)
               else Inr rows) (\<lambda>rows1.
     process_sections F balance_sheet_data rest rows1))"

definition collect_rows :: "'f runtime \<Rightarrow> 'f json \<Rightarrow> error + 'f row list" where
  "collect_rows F balance_sheet_data =
     process_sections F balance_sheet_data [''assets'', ''liabilities'', ''equity''] []"

definition get_all_child_values :: "'f runtime \<Rightarrow> 'f json \<Rightarrow> error + 'f row list" where
  "get_all_child_values F balance_sheet_data =
     and_then (collect_rows F balance_sheet_data) (\<lambda>rows. data_frame F rows)"

subsection \<open>validate_balance_sheet_json_schema\<close>

text \<open>
  The schema of the source uses three keywords of JSON Schema, which
  \<open>jsonschema.validate\<close> reads as follows: \<open>type\<close> restricts the kind of the instance
  (\<open>"object"\<close> is a dict); \<open>properties\<close> applies a schema to the value of each listed
  key that the instance has, and \<open>required\<close> lists keys the instance must have, both
  only when the instance is a dict. An invalid instance raises \<open>ValidationError\<close>.
\<close>

datatype json_type = TypeObject | TypeArray | TypeString | TypeBoolean | TypeNull

datatype schema =
  Schema (schema_type: "json_type option")
         (schema_properties: "(string \<times> schema) list")
         (schema_required: "string list")

fun has_type :: "json_type \<Rightarrow> 'f json \<Rightarrow> bool" where
  "has_type TypeObject (JObj kvs) = True"
| "has_type TypeArray (JArr xs) = True"
| "has_type TypeString (JStr s) = True"
| "has_type TypeBoolean (JBool b) = True"
| "has_type TypeNull JNull = True"
| "has_type _ _ = False"

fun is_valid :: "schema \<Rightarrow> 'f json \<Rightarrow> bool" where
  "is_valid (Schema ty props required) instance =
     ((case ty of None \<Rightarrow> True | Some t \<Rightarrow> has_type t instance) \<and>
      (case instance of
         JObj kvs \<Rightarrow>
           list_all (\<lambda>(k, s). case map_of kvs k of None \<Rightarrow> True | Some v \<Rightarrow> is_valid s v) props \<and>
           list_all (\<lambda>k. k \<in> set (map fst kvs)) required
       | _ \<Rightarrow> True))"

definition balance_sheet_schema :: schema where
  "balance_sheet_schema =
     Schema (Some TypeObject)
       [(''assets'', Schema (Some TypeObject) [] []),
        (''liabilities'', Schema (Some TypeObject) [] []),
        (''equity'', Schema (Some TypeObject) [] [])]
       [''assets'', ''liabilities'', ''equity'']"

definition validate_balance_sheet_json_schema ::
  "'f json \<Rightarrow> (error + unit) \<times> 'f log_record list" where
  "validate_balance_sheet_json_schema balance_sheet_data =
     (if is_valid balance_sheet_schema balance_sheet_data
      then (Inr (), [Info ''Balance sheet json schema validation passed''])
      else (Inl ValidationError, []))"

subsection \<open>validate_balance_sheet_equation\<close>

definition mismatch_message :: "string \<Rightarrow> string" where
  "mismatch_message n =
     ''Balance sheet validation failed: '' @ n @ '' value does not match sum of its children''"

text \<open>
  The inner function \<open>validate_node_sum\<close>. A result is the returned float or the
  exception, together with the log records written on the way. \<open>validate_children\<close> is
  the generator \<open>validate_node_sum(child) for child in node["items"]\<close> as \<open>sum\<close>
  consumes it: the children are validated in order, and the first exception ends the
  sum. Adding floats cannot raise, so the values are collected first and summed by
  \<open>fl_sum\<close>. On a mismatch the logger call comes first; both it and the \<open>raise\<close>
  read \<open>node["name"]\<close>.
\<close>

function validate_node_sum ::
    "'f runtime \<Rightarrow> 'f json \<Rightarrow> (error + 'f) \<times> 'f log_record list"
  and validate_children ::
    "'f runtime \<Rightarrow> 'f json list \<Rightarrow> (error + 'f list) \<times> 'f log_record list"
where
  "validate_node_sum F node =
     logged_then (silent (and_then (py_getitem node ''value'') (py_float F))) (\<lambda>node_value.
     logged_then (silent (py_contains ''items'' node)) (\<lambda>has_items.
       if \<not> has_items then (Inr node_value, [])
       else
     logged_then (silent (and_then (py_getitem node ''items'') py_iter)) (\<lambda>children.
     logged_then (validate_children F children) (\<lambda>child_values.
       let children_sum = fl_sum F child_values in
       if fl_gt F (fl_abs F (fl_sub F node_value children_sum)) (fl_tol F)
       then logged_then (silent (py_getitem node ''name'')) (\<lambda>n.
              (Inl (ValueError (mismatch_message (py_str F n))),
               [ValueMismatchLogged (py_str F n) node_value children_sum]))
       else (Inr node_value, [])))))"
| "validate_children F [] = (Inr [], [])"
| "validate_children F (child # rest) =
     logged_then (validate_node_sum F child) (\<lambda>v.
     logged_then (validate_children F rest) (\<lambda>vs.
     (Inr (v # vs), [])))"
  by pat_completeness auto

text \<open>
  The function itself. Each section is looked up and validated in turn; the \<open>assert\<close>
  compares the three returned totals with \<open>==\<close> (assertions are taken to be enabled).
\<close>

definition validate_balance_sheet_equation ::
  "'f runtime \<Rightarrow> 'f json \<Rightarrow> (error + 'f) \<times> 'f log_record list" where
  "validate_balance_sheet_equation F balance_sheet_data =
     logged_then (silent (py_getitem balance_sheet_data ''assets'')) (\<lambda>assets.
     logged_then (validate_node_sum F assets) (\<lambda>assets_value.
     logged_then (silent (py_getitem balance_sheet_data ''liabilities'')) (\<lambda>liabilities.
     logged_then (validate_node_sum F liabilities) (\<lambda>liabilities_value.
     logged_then (silent (py_getitem balance_sheet_data ''equity'')) (\<lambda>equity.
     logged_then (validate_node_sum F equity) (\<lambda>equity_value.
       if fl_eq F assets_value (fl_add F liabilities_value equity_value)
       then (Inr assets_value, [Info ''All parent-child sums validated successfully''])
       else (Inl (AssertionError ''Assets do not equal liabilities plus equity''), [])))))))"

subsection \<open>A runtime for evaluation\<close>

text \<open>
  An instance of the runtime on which the model can be run: floats are rationals and
  the arithmetic is exact, with neither rounding nor overflow, infinities or NaN. It
  agrees with binary64 arithmetic wherever every intermediate result is representable,
  which holds for the small integers and dyadic fractions of the documents evaluated
  below. The tolerance is the exact value of the double nearest to 0.01. No string is
  accepted as a number by this runtime and no name is formatted that is not a string;
  neither occurs in those documents.

  Its data frame stores the columns \<open>account_id\<close> and \<open>name\<close> the way \<open>polars\<close> stores
  the columns of those documents: an integer that no integer column can hold (more than
  128 bits) raises OverflowError; in a column that holds both text and integers the
  integers are stored as text, in decimal; every other column is stored as it is.
\<close>

fun digits :: "nat \<Rightarrow> string" where
  "digits n =
     (if n < 10 then [''0123456789'' ! n]
      else digits (n div 10) @ [''0123456789'' ! (n mod 10)])"

definition int_str :: "int \<Rightarrow> string" where
  "int_str n = (if n < 0 then ''-'' @ digits (nat (- n)) else digits (nat n))"

definition too_large :: "'f json \<Rightarrow> bool" where
  "too_large v = (case v of JInt n \<Rightarrow> n < - (2 ^ 127) \<or> 2 ^ 127 \<le> n | _ \<Rightarrow> False)"

definition is_text :: "'f json \<Rightarrow> bool" where
  "is_text v = (case v of JStr s \<Rightarrow> True | _ \<Rightarrow> False)"

definition is_integer :: "'f json \<Rightarrow> bool" where
  "is_integer v = (case v of JInt n \<Rightarrow> True | _ \<Rightarrow> False)"

definition as_text :: "'f json \<Rightarrow> 'f json" where
  "as_text v = (case v of JInt n \<Rightarrow> JStr (int_str n) | _ \<Rightarrow> v)"

definition stored_column :: "'f json list \<Rightarrow> error + 'f json list" where
  "stored_column cells =
     (if list_ex too_large cells then Inl OverflowError
      else if list_ex is_text cells \<and> list_ex is_integer cells then Inr (map as_text cells)
      else Inr cells)"

definition stored_frame :: "'f row list \<Rightarrow> error + 'f row list" where
  "stored_frame rows =
     and_then (stored_column (map row_account_id rows)) (\<lambda>account_ids.
     and_then (stored_column (map row_name rows)) (\<lambda>names.
     Inr (map (\<lambda>(r, a, n). r\<lparr>row_account_id := a, row_name := n\<rparr>)
            (zip rows (zip account_ids names)))))"

definition exact_runtime :: "rat runtime" where
  "exact_runtime =
     \<lparr>float_of_int = (\<lambda>n. Some (of_int n)),
      float_of_str = (\<lambda>s. None),
      str_other = (\<lambda>v. []),
      fl_add = (\<lambda>a b. a + b),
      fl_sub = (\<lambda>a b. a - b),
      fl_abs = abs,
      fl_gt = (\<lambda>a b. a > b),
      fl_eq = (\<lambda>a b. a = b),
      fl_sum = (\<lambda>xs. foldl (\<lambda>a b. a + b) 0 xs),
      fl_tol = 5764607523034235 / 576460752303423488,
      data_frame = stored_frame\<rparr>"

subsection \<open>The properties in the words of the specification\<close>

text \<open>
  The children of a node: the elements of its \<open>items\<close>, in the order listed. A value
  that is not a dict, or a dict without \<open>items\<close>, has none.
\<close>

fun children_of :: "'f json \<Rightarrow> 'f json list" where
  "children_of (JObj kvs) =
     (case map_of kvs ''items'' of
        None \<Rightarrow> []
      | Some items \<Rightarrow> (case py_iter items of Inl e \<Rightarrow> [] | Inr cs \<Rightarrow> cs))"
| "children_of _ = []"

text \<open>
  The nodes of a tree in depth-first document order, each with the list of its
  ancestors from the root of the tree down to its parent: a node comes before its
  children, the children follow in the order of \<open>items\<close>, each with its whole subtree.
\<close>

function visits :: "'f json \<Rightarrow> 'f json list \<Rightarrow> ('f json list \<times> 'f json) list" where
  "visits node ancestors =
     (ancestors, node) # concat (map (\<lambda>child. visits child (ancestors @ [node])) (children_of node))"
  by pat_completeness auto

text \<open>A node has both a \<open>value\<close> field and an \<open>account_id\<close> field that is not null.\<close>

fun has_value_and_account_id :: "'f json \<Rightarrow> bool" where
  "has_value_and_account_id (JObj kvs) =
     (map_of kvs ''value'' \<noteq> None \<and>
      (case map_of kvs ''account_id'' of None \<Rightarrow> False | Some a \<Rightarrow> a \<noteq> JNull))"
| "has_value_and_account_id _ = False"

text \<open>The name of a node as it appears in a path, and \<open>"/".join\<close>.\<close>

definition name_in_path :: "'f runtime \<Rightarrow> 'f json \<Rightarrow> string" where
  "name_in_path F node = (case py_getitem node ''name'' of Inl e \<Rightarrow> [] | Inr n \<Rightarrow> py_str F n)"

fun slash_join :: "string list \<Rightarrow> string" where
  "slash_join [] = []"
| "slash_join [x] = x"
| "slash_join (x # y # ys) = x @ ''/'' @ slash_join (y # ys)"

text \<open>
  The visited nodes of a document: the trees under \<open>assets\<close>, \<open>liabilities\<close> and
  \<open>equity\<close>, in this order, each node with the key of its section and its ancestors.
\<close>

definition section_visits ::
  "'f json \<Rightarrow> string \<Rightarrow> (string \<times> 'f json list \<times> 'f json) list" where
  "section_visits balance_sheet_data section =
     (case py_getitem balance_sheet_data section of
        Inl e \<Rightarrow> []
      | Inr tree \<Rightarrow> map (\<lambda>(ancestors, node). (section, ancestors, node)) (visits tree []))"

definition document_visits :: "'f json \<Rightarrow> (string \<times> 'f json list \<times> 'f json) list" where
  "document_visits balance_sheet_data =
     concat (map (section_visits balance_sheet_data) [''assets'', ''liabilities'', ''equity''])"

definition document_nodes :: "'f json \<Rightarrow> 'f json list" where
  "document_nodes balance_sheet_data =
     map (\<lambda>(section, ancestors, node). node) (document_visits balance_sheet_data)"

text \<open>The visits of nodes that have both a \<open>value\<close> and a non-null \<open>account_id\<close>.\<close>

definition emitting ::
  "(string \<times> 'f json list \<times> 'f json) list \<Rightarrow> (string \<times> 'f json list \<times> 'f json) list" where
  "emitting vs = filter (\<lambda>(section, ancestors, node). has_value_and_account_id node) vs"

text \<open>
  The path of a node: the key of its section followed by the names of its ancestors,
  from the root node of the section down to the parent, joined by \<open>/\<close>.
\<close>

definition path_of :: "'f runtime \<Rightarrow> string \<Rightarrow> 'f json list \<Rightarrow> string" where
  "path_of F section ancestors = slash_join (section # map (name_in_path F) ancestors)"

text \<open>A row is the row of a visited node: each of its four entries comes from the node.\<close>

definition row_matches ::
  "'f runtime \<Rightarrow> string \<times> 'f json list \<times> 'f json \<Rightarrow> 'f row \<Rightarrow> bool" where
  "row_matches F visit r =
     (case visit of (section, ancestors, node) \<Rightarrow>
        py_getitem node ''account_id'' = Inr (row_account_id r) \<and>
        row_path r = path_of F section ancestors \<and>
        py_getitem node ''name'' = Inr (row_name r) \<and>
        and_then (py_getitem node ''value'') (py_float F) = Inr (row_value r))"

text \<open>
  The rows of one section on its own: those of the traversal of its tree, started with
  no rows; no rows when the document has nothing under the key.
\<close>

definition section_rows :: "'f runtime \<Rightarrow> 'f json \<Rightarrow> string \<Rightarrow> error + 'f row list" where
  "section_rows F balance_sheet_data section =
     (case py_getitem balance_sheet_data section of
        Inl e \<Rightarrow> Inr []
      | Inr tree \<Rightarrow> traverse_node F tree section [])"

text \<open>
  A tree the traversal can walk. Each node is a dict. A node that has a \<open>value\<close> and a
  non-null \<open>account_id\<close>, for which a row is built, has a \<open>name\<close> and a \<open>value\<close> that
  \<open>float\<close> accepts. The \<open>items\<close> of a node, if it has any, can be iterated, the node
  has a \<open>name\<close> if there is a child, and the children are such trees. Every tree of the
  data model is of this kind; so is a tree with nodes that lack a \<open>value\<close> or an
  \<open>account_id\<close>. A document of this kind is a dict in which each of the three
  sections, where present, is such a tree.
\<close>

inductive traversable :: "'f runtime \<Rightarrow> 'f json \<Rightarrow> bool"
  for F :: "'f runtime"
where
  walk:
    "node = JObj kvs \<Longrightarrow>
     (has_value_and_account_id node \<longrightarrow>
        (\<exists>n. py_getitem node ''name'' = Inr n) \<and>
        (\<exists>v. and_then (py_getitem node ''value'') (py_float F) = Inr v)) \<Longrightarrow>
     (case map_of kvs ''items'' of None \<Rightarrow> True | Some items \<Rightarrow> \<exists>cs. py_iter items = Inr cs) \<Longrightarrow>
     (children_of node \<noteq> [] \<longrightarrow> (\<exists>n. py_getitem node ''name'' = Inr n)) \<Longrightarrow>
     \<forall>child \<in> set (children_of node). traversable F child \<Longrightarrow>
     traversable F node"

definition traversable_document :: "'f runtime \<Rightarrow> 'f json \<Rightarrow> bool" where
  "traversable_document F balance_sheet_data =
     (\<exists>kvs. balance_sheet_data = JObj kvs \<and>
        (\<forall>section \<in> set [''assets'', ''liabilities'', ''equity''].
           case map_of kvs section of None \<Rightarrow> True | Some tree \<Rightarrow> traversable F tree))"


text \<open>The document has an object (a dict) under the key.\<close>

definition has_object :: "'f json \<Rightarrow> string \<Rightarrow> bool" where
  "has_object balance_sheet_data k =
     (case py_getitem balance_sheet_data k of Inr (JObj kvs) \<Rightarrow> True | _ \<Rightarrow> False)"

subsection \<open>Example documents\<close>

text \<open>
  The example of the specification: assets of 100 split into cash 60 and receivables
  40, liabilities of 40 with one account, and equity 60 as a leaf with an account id.
\<close>

definition example_assets :: "rat json" where
  "example_assets =
     JObj [(''name'', JStr ''assets''), (''value'', JInt 100),
           (''items'',
            JArr [JObj [(''name'', JStr ''cash''), (''value'', JInt 60),
                        (''account_id'', JStr ''A1'')],
                  JObj [(''name'', JStr ''ar''), (''value'', JInt 40),
                        (''account_id'', JStr ''A2'')]])]"

definition example_liabilities :: "rat json" where
  "example_liabilities =
     JObj [(''name'', JStr ''liabilities''), (''value'', JInt 40),
           (''items'',
            JArr [JObj [(''name'', JStr ''ap''), (''value'', JInt 40),
                        (''account_id'', JStr ''L1'')]])]"

definition example_equity :: "rat json" where
  "example_equity =
     JObj [(''name'', JStr ''equity''), (''value'', JInt 60), (''account_id'', JStr ''E1'')]"

definition example_document :: "rat json" where
  "example_document =
     JObj [(''assets'', example_assets),
           (''liabilities'', example_liabilities),
           (''equity'', example_equity)]"

text \<open>
  A parent of value 100 whose children sum to 60 + 39.9921875: the difference 1/128 is
  below the tolerance.
\<close>

definition within_tolerance_node :: "rat json" where
  "within_tolerance_node =
     JObj [(''name'', JStr ''assets''), (''value'', JInt 100),
           (''items'', JArr [JObj [(''name'', JStr ''cash''), (''value'', JInt 60)],
                             JObj [(''name'', JStr ''ar''), (''value'', JFloat (5119 / 128))]])]"

text \<open>Two parents named \<open>assets\<close> whose values are off by 10 and by 6.\<close>

definition mismatch_node :: "rat json" where
  "mismatch_node =
     JObj [(''name'', JStr ''assets''), (''value'', JInt 100),
           (''items'', JArr [JObj [(''name'', JStr ''cash''), (''value'', JInt 60)],
                             JObj [(''name'', JStr ''ar''), (''value'', JInt 30)]])]"

definition other_mismatch_node :: "rat json" where
  "other_mismatch_node =
     JObj [(''name'', JStr ''assets''), (''value'', JInt 7),
           (''items'', JArr [JObj [(''name'', JStr ''cash''), (''value'', JInt 1)]])]"

text \<open>Three leaf sections with assets 100, liabilities 40 and equity 59.9921875.\<close>

definition unbalanced_document :: "rat json" where
  "unbalanced_document =
     JObj [(''assets'', JObj [(''name'', JStr ''assets''), (''value'', JInt 100)]),
           (''liabilities'', JObj [(''name'', JStr ''liabilities''), (''value'', JInt 40)]),
           (''equity'', JObj [(''name'', JStr ''equity''), (''value'', JFloat (7679 / 128))])]"

text \<open>A document whose sections hold nothing a node needs, and one without equity.\<close>

definition hollow_document :: "rat json" where
  "hollow_document =
     JObj [(''assets'', JObj [(''junk'', JNull)]),
           (''liabilities'', JObj []),
           (''equity'', JObj [(''items'', JInt 3)])]"

definition partial_document :: "rat json" where
  "partial_document = JObj [(''liabilities'', example_liabilities)]"

text \<open>
  A tree whose root has no \<open>value\<close> and whose first child has an account id but no
  \<open>value\<close>; only \<open>cash\<close> has both.
\<close>

definition unvalued_document :: "rat json" where
  "unvalued_document =
     JObj [(''assets'',
            JObj [(''name'', JStr ''assets''),
                  (''items'',
                   JArr [JObj [(''name'', JStr ''note''), (''account_id'', JStr ''N1'')],
                         JObj [(''name'', JStr ''cash''), (''value'', JInt 60),
                               (''account_id'', JStr ''A1'')]])])]"

text \<open>
  Documents with \<open>assets\<close> only: one whose accounts have the ids \<open>"A1"\<close> and \<open>7\<close>, one
  whose single account has the id \<open>2 ** 200\<close>, and one whose account has no name.
\<close>

definition mixed_ids_document :: "rat json" where
  "mixed_ids_document =
     JObj [(''assets'',
            JObj [(''name'', JStr ''assets''), (''value'', JInt 100),
                  (''items'',
                   JArr [JObj [(''name'', JStr ''cash''), (''value'', JInt 60),
                               (''account_id'', JStr ''A1'')],
                         JObj [(''name'', JStr ''ar''), (''value'', JInt 40),
                               (''account_id'', JInt 7)]])])]"

definition large_id_document :: "rat json" where
  "large_id_document =
     JObj [(''assets'',
            JObj [(''name'', JStr ''assets''), (''value'', JInt 1),
                  (''account_id'', JInt (2 ^ 200))])]"

definition nameless_document :: "rat json" where
  "nameless_document =
     JObj [(''assets'', JObj [(''value'', JInt 1), (''account_id'', JStr ''A'')])]"

section \<open>Termination\<close>

lemma jsize_getitem: "py_getitem node k = Inr v \<Longrightarrow> 3 * jsize v < jsize node"
proof (cases node)
  case (JObj kvs)
  assume "py_getitem node k = Inr v"
  with JObj have "map_of kvs k = Some v" by (simp split: option.splits)
  then have "(k, v) \<in> set kvs" by (rule map_of_SomeD)
  then have "3 * jsize v < 1 + sum_list (map (\<lambda>(k, v). 2 + length k + 3 * jsize v) kvs)"
    by (induction kvs) auto
  with JObj show ?thesis by simp
qed simp_all

lemma items_size_iter: "py_iter items = Inr cs \<Longrightarrow> items_size cs \<le> 3 * jsize items"
proof (cases items)
  case (JStr s)
  assume "py_iter items = Inr cs"
  with JStr have cs: "cs = map (\<lambda>c. JStr [c]) s" by auto
  have "items_size (map (\<lambda>c. JStr [c]) s) = 3 * length s"
    by (induction s) (simp_all add: items_size_def)
  then have "items_size cs = 3 * length s" by (simp only: cs)
  moreover have "jsize items = 1 + length s" by (simp add: JStr)
  ultimately show ?thesis by linarith
next
  case (JArr xs)
  assume "py_iter items = Inr cs"
  with JArr show ?thesis by (auto simp: items_size_def)
next
  case (JObj kvs)
  assume "py_iter items = Inr cs"
  with JObj have cs: "cs = map (\<lambda>kv. JStr (fst kv)) kvs" by auto
  have "items_size (map (\<lambda>kv. JStr (fst kv)) kvs)
          \<le> sum_list (map (\<lambda>(k, v). 2 + length k + 3 * jsize v) kvs)"
    by (induction kvs) (auto simp: items_size_def)
  then have "items_size cs \<le> sum_list (map (\<lambda>(k, v). 2 + length k + 3 * jsize v) kvs)"
    by (simp only: cs)
  moreover have "jsize items = 1 + sum_list (map (\<lambda>(k, v). 2 + length k + 3 * jsize v) kvs)"
    by (simp add: JObj)
  ultimately show ?thesis by linarith
qed simp_all

lemma and_then_Inr_iff: "and_then m f = Inr y \<longleftrightarrow> (\<exists>x. m = Inr x \<and> f x = Inr y)"
  by (cases m) (simp_all add: and_then_def)

lemma items_size_children:
  assumes "and_then (py_getitem node ''items'') py_iter = Inr children"
  shows "items_size children < jsize node"
proof -
  from assms obtain items where
    items: "py_getitem node ''items'' = Inr items" and iter: "py_iter items = Inr children"
    by (auto simp: and_then_Inr_iff)
  from items have "3 * jsize items < jsize node" by (rule jsize_getitem)
  moreover from iter have "items_size children \<le> 3 * jsize items" by (rule items_size_iter)
  ultimately show ?thesis by simp
qed

lemma jsize_member_items: "c \<in> set cs \<Longrightarrow> jsize c < items_size cs"
  by (induction cs) (auto simp: items_size_def)

termination traverse_node
proof (relation "measure (\<lambda>x. case x of
            Inl (F, node, p, rows) \<Rightarrow> jsize node
          | Inr (F, node, p, cs, rows) \<Rightarrow> items_size cs)", goal_cases)
  case (2 F node current_path rows emit rows1 has_items children)
  then show ?case by (simp add: items_size_children)
qed (simp_all add: items_size_def)

termination validate_node_sum
proof (relation "measure (\<lambda>x. case x of
            Inl (F, node) \<Rightarrow> jsize node
          | Inr (F, cs) \<Rightarrow> items_size cs)", goal_cases)
  case (2 F node node_value has_items children)
  then show ?case by (simp add: items_size_children silent_def)
qed (simp_all add: items_size_def)

lemma jsize_children_of: "child \<in> set (children_of node) \<Longrightarrow> jsize child < jsize node"
proof (cases node)
  case (JObj kvs)
  assume c: "child \<in> set (children_of node)"
  show ?thesis
  proof (cases "map_of kvs ''items''")
    case None
    with c JObj show ?thesis by simp
  next
    case (Some items)
    show ?thesis
    proof (cases "py_iter items")
      case (Inl e)
      with c JObj Some show ?thesis by simp
    next
      case (Inr cs)
      with c JObj Some have "child \<in> set cs" by simp
      then have "jsize child < items_size cs" by (rule jsize_member_items)
      moreover from Some JObj Inr
      have "and_then (py_getitem node ''items'') py_iter = Inr cs"
        by (simp add: and_then_def)
      then have "items_size cs < jsize node" by (rule items_size_children)
      ultimately show ?thesis by simp
    qed
  qed
qed simp_all

termination visits
  by (relation "measure (\<lambda>(node, ancestors). jsize node)") (simp_all add: jsize_children_of)

section \<open>Basic facts\<close>

lemma and_then_simps [simp]:
  "and_then (Inl e) f = Inl e"
  "and_then (Inr x) f = f x"
  by (simp_all add: and_then_def)

lemma logged_then_simps [simp]:
  "logged_then (Inl e, lg) f = (Inl e, lg)"
  "logged_then (Inr x, lg) f = (fst (f x), lg @ snd (f x))"
  by (simp_all add: logged_then_def)

lemma silent_simps [simp]: "silent r = (r, [])"
  by (simp add: silent_def)

lemma exact_runtime_simps [simp]:
  "float_of_int exact_runtime n = Some (of_int n)"
  "float_of_str exact_runtime s = None"
  "str_other exact_runtime j = []"
  "fl_add exact_runtime a b = a + b"
  "fl_sub exact_runtime a b = a - b"
  "fl_abs exact_runtime a = abs a"
  "fl_gt exact_runtime a b = (a > b)"
  "fl_eq exact_runtime a b = (a = b)"
  "fl_sum exact_runtime xs = foldl (\<lambda>a b. a + b) 0 xs"
  "fl_tol exact_runtime = 5764607523034235 / 576460752303423488"
  "data_frame exact_runtime rows = stored_frame rows"
  by (simp_all add: exact_runtime_def)

declare digits.simps [simp del]

declare validate_node_sum.simps [simp del]
declare traverse_node.simps [simp del]
declare validate_children.simps(2) [simp del]

lemma py_contains_after_getitem:
  "py_getitem node k = Inr x \<Longrightarrow> \<exists>b. py_contains k' node = Inr b"
  by (cases node) simp_all

subsection \<open>The ways a call of validate_node_sum can go\<close>

lemma validate_node_sum_no_value:
  "and_then (py_getitem node ''value'') (py_float F) = Inl e \<Longrightarrow>
   validate_node_sum F node = (Inl e, [])"
  by (simp add: validate_node_sum.simps)

lemma validate_node_sum_leaf:
  "and_then (py_getitem node ''value'') (py_float F) = Inr v \<Longrightarrow>
   py_contains ''items'' node = Inr False \<Longrightarrow>
   validate_node_sum F node = (Inr v, [])"
  by (simp add: validate_node_sum.simps)

lemma validate_node_sum_no_children:
  "and_then (py_getitem node ''value'') (py_float F) = Inr v \<Longrightarrow>
   py_contains ''items'' node = Inr True \<Longrightarrow>
   and_then (py_getitem node ''items'') py_iter = Inl e \<Longrightarrow>
   validate_node_sum F node = (Inl e, [])"
  by (simp add: validate_node_sum.simps)

lemma validate_node_sum_parent:
  "and_then (py_getitem node ''value'') (py_float F) = Inr v \<Longrightarrow>
   py_contains ''items'' node = Inr True \<Longrightarrow>
   and_then (py_getitem node ''items'') py_iter = Inr cs \<Longrightarrow>
   validate_node_sum F node =
     (case fst (validate_children F cs) of
        Inl e \<Rightarrow> (Inl e, snd (validate_children F cs))
      | Inr vs \<Rightarrow>
          if fl_gt F (fl_abs F (fl_sub F v (fl_sum F vs))) (fl_tol F)
          then (case py_getitem node ''name'' of
                  Inl e \<Rightarrow> (Inl e, snd (validate_children F cs))
                | Inr n \<Rightarrow> (Inl (ValueError (mismatch_message (py_str F n))),
                           snd (validate_children F cs)
                             @ [ValueMismatchLogged (py_str F n) v (fl_sum F vs)]))
          else (Inr v, snd (validate_children F cs)))"
  by (simp add: validate_node_sum.simps logged_then_def Let_def split: sum.splits)

lemma validate_children_Cons:
  "validate_children F (c # cs) =
     (case fst (validate_node_sum F c) of
        Inl e \<Rightarrow> (Inl e, snd (validate_node_sum F c))
      | Inr v \<Rightarrow>
          (case fst (validate_children F cs) of
             Inl e \<Rightarrow> (Inl e, snd (validate_node_sum F c) @ snd (validate_children F cs))
           | Inr vs \<Rightarrow>
               (Inr (v # vs), snd (validate_node_sum F c) @ snd (validate_children F cs))))"
  by (simp add: validate_children.simps logged_then_def split: sum.splits)

text \<open>A validation that returns has written nothing to the log.\<close>

lemma validate_ok_no_log:
  "fst (validate_node_sum F node) = Inr v \<Longrightarrow> snd (validate_node_sum F node) = []"
  "fst (validate_children F cs) = Inr vs \<Longrightarrow> snd (validate_children F cs) = []"
proof (induction F node and F cs arbitrary: v and vs
       rule: validate_node_sum_validate_children.induct)
  case (1 F node)
  show ?case
  proof (cases "and_then (py_getitem node ''value'') (py_float F)")
    case (Inl e)
    then show ?thesis by (simp add: validate_node_sum_no_value)
  next
    case x: (Inr x)
    then obtain raw where "py_getitem node ''value'' = Inr raw"
      by (auto simp: and_then_Inr_iff)
    then obtain b where b: "py_contains ''items'' node = Inr b"
      using py_contains_after_getitem by blast
    show ?thesis
    proof (cases b)
      case False
      with x b show ?thesis by (simp add: validate_node_sum_leaf)
    next
      case True
      show ?thesis
      proof (cases "and_then (py_getitem node ''items'') py_iter")
        case (Inl e)
        with x b True show ?thesis by (simp add: validate_node_sum_no_children)
      next
        case (Inr cs)
        have ih: "snd (validate_children F cs) = []"
          if "fst (validate_children F cs) = Inr vs" for vs
          using "1.IH" [of x b cs vs] x b True Inr that by simp
        from "1.prems" x b True Inr show ?thesis
          by (auto simp: validate_node_sum_parent [OF x _ Inr] ih split: sum.splits if_splits)
      qed
    qed
  qed
next
  case (2 F)
  then show ?case by simp
next
  case (3 F child rest)
  then show ?case
    by (auto simp: validate_children_Cons split: sum.splits)
qed

text \<open>The value a returning validation hands back is the node's own.\<close>

lemma validate_node_sum_Inr_value:
  assumes ok: "fst (validate_node_sum F node) = Inr v"
  shows "and_then (py_getitem node ''value'') (py_float F) = Inr v"
proof (cases "and_then (py_getitem node ''value'') (py_float F)")
  case (Inl e)
  with ok show ?thesis by (simp add: validate_node_sum_no_value)
next
  case x: (Inr x)
  then obtain raw where "py_getitem node ''value'' = Inr raw"
    by (auto simp: and_then_Inr_iff)
  then obtain b where b: "py_contains ''items'' node = Inr b"
    using py_contains_after_getitem by blast
  show ?thesis
  proof (cases b)
    case False
    with x b ok show ?thesis by (simp add: validate_node_sum_leaf)
  next
    case True
    show ?thesis
    proof (cases "and_then (py_getitem node ''items'') py_iter")
      case (Inl e)
      with x b True ok show ?thesis by (simp add: validate_node_sum_no_children)
    next
      case (Inr cs)
      from ok x b True show ?thesis
        by (auto simp: validate_node_sum_parent [OF x _ Inr] split: sum.splits if_splits)
    qed
  qed
qed

lemma fst_logged_then:
  "fst (logged_then m f) = (case fst m of Inl e \<Rightarrow> Inl e | Inr x \<Rightarrow> fst (f x))"
  by (simp add: logged_then_def split: sum.splits)

lemma validate_children_Inr_full:
  "fst (validate_children F cs) = Inr vs \<Longrightarrow> validate_children F cs = (Inr vs, [])"
  using validate_ok_no_log(2) [of F cs vs] by (cases "validate_children F cs") simp

lemma key_present_iff: "k \<in> fst ` set kvs \<longleftrightarrow> map_of kvs k \<noteq> None"
  by (simp add: map_of_eq_None_iff)

lemma py_getitem_contains: "py_getitem node k = Inr x \<Longrightarrow> py_contains k node = Inr True"
proof (cases node)
  case (JObj kvs)
  assume "py_getitem node k = Inr x"
  with JObj have "map_of kvs k = Some x" by (simp split: option.splits)
  then have "k \<in> fst ` set kvs" by (simp add: key_present_iff)
  with JObj show ?thesis by simp
qed simp_all

lemma has_items_contains:
  "and_then (py_getitem node ''items'') py_iter = Inr cs \<Longrightarrow>
   py_contains ''items'' node = Inr True"
  by (auto simp: and_then_Inr_iff dest: py_getitem_contains)

text \<open>A parent with a name whose children all validate: the check decides the result.\<close>

lemma validate_node_sum_checked:
  assumes v: "and_then (py_getitem node ''value'') (py_float F) = Inr v"
    and cs: "and_then (py_getitem node ''items'') py_iter = Inr cs"
    and vs: "fst (validate_children F cs) = Inr vs"
    and n: "py_getitem node ''name'' = Inr n"
  shows "validate_node_sum F node =
           (if fl_gt F (fl_abs F (fl_sub F v (fl_sum F vs))) (fl_tol F)
            then (Inl (ValueError (mismatch_message (py_str F n))),
                  [ValueMismatchLogged (py_str F n) v (fl_sum F vs)])
            else (Inr v, []))"
proof -
  from vs have "validate_children F cs = (Inr vs, [])" by (rule validate_children_Inr_full)
  then show ?thesis
    by (simp add: validate_node_sum_parent [OF v has_items_contains [OF cs] cs] n)
qed


text \<open>Evaluations on the example documents.\<close>

lemma example_sections_validate:
  "validate_node_sum exact_runtime example_assets = (Inr 100, [])"
  "validate_node_sum exact_runtime example_liabilities = (Inr 40, [])"
  "validate_node_sum exact_runtime example_equity = (Inr 60, [])"
  by (simp_all add: example_assets_def example_liabilities_def example_equity_def
        validate_node_sum.simps validate_children.simps)

subsection \<open>Facts about the traversal\<close>

declare visits.simps [simp del]

lemma emit_condition_spec:
  "emit_condition node = Inr b \<Longrightarrow> b = has_value_and_account_id node"
proof (cases node)
  case (JObj kvs)
  assume "emit_condition node = Inr b"
  with JObj show ?thesis
    by (auto simp: emit_condition_def key_present_iff split: if_splits option.splits)
next
  case (JArr xs)
  assume "emit_condition node = Inr b"
  with JArr show ?thesis
    by (auto simp: emit_condition_def split: if_splits)
next
  case (JStr s)
  assume "emit_condition node = Inr b"
  with JStr show ?thesis
    by (auto simp: emit_condition_def split: if_splits)
qed (simp_all add: emit_condition_def)

lemma row_dict_matches:
  "row_dict F node p = Inr r \<Longrightarrow> p = path_of F s anc \<Longrightarrow> row_matches F (s, anc, node) r"
  by (auto simp: row_dict_def row_matches_def and_then_Inr_iff)

lemma children_of_items:
  "and_then (py_getitem node ''items'') py_iter = Inr cs \<Longrightarrow> children_of node = cs"
  by (cases node) (auto simp: and_then_Inr_iff split: option.splits)

lemma children_of_no_items:
  "py_contains ''items'' node = Inr False \<Longrightarrow> children_of node = []"
  by (cases node) (auto simp: key_present_iff)

lemma slash_join_snoc: "xs \<noteq> [] \<Longrightarrow> slash_join (xs @ [y]) = slash_join xs @ ''/'' @ y"
  by (induction xs rule: slash_join.induct) auto

lemma slash_join_nonempty: "s \<noteq> [] \<Longrightarrow> slash_join (s # xs) \<noteq> []"
  by (cases xs) auto

lemma path_of_child:
  assumes "s \<noteq> []" and "py_getitem node ''name'' = Inr n"
  shows "(if path_of F s anc \<noteq> [] then path_of F s anc @ ''/'' @ py_str F n else py_str F n)
           = path_of F s (anc @ [node])"
proof -
  have "path_of F s (anc @ [node]) = slash_join ((s # map (name_in_path F) anc) @ [name_in_path F node])"
    by (simp add: path_of_def)
  also have "\<dots> = path_of F s anc @ ''/'' @ name_in_path F node"
    by (simp only: path_of_def slash_join_snoc [OF list.distinct(2)])
  finally show ?thesis using assms
    by (simp add: path_of_def slash_join_nonempty name_in_path_def del: slash_join.simps)
qed

lemma traverse_node_Inr_iff:
  "traverse_node F node p rows = Inr rows' \<longleftrightarrow>
     (\<exists>emit rows1 has_items.
        emit_condition node = Inr emit \<and>
        (if emit then \<exists>r. row_dict F node p = Inr r \<and> rows1 = rows @ [r] else rows1 = rows) \<and>
        py_contains ''items'' node = Inr has_items \<and>
        (if has_items
         then \<exists>cs. and_then (py_getitem node ''items'') py_iter = Inr cs \<and>
                   traverse_items F node p cs rows1 = Inr rows'
         else rows' = rows1))"
proof (cases "emit_condition node")
  case (Inl e)
  then show ?thesis by (subst traverse_node.simps) simp
next
  case emit: (Inr emit)
  show ?thesis
  proof (cases "if emit then and_then (row_dict F node p) (\<lambda>r. Inr (rows @ [r])) else Inr rows")
    case (Inl e)
    with emit show ?thesis
      by (subst traverse_node.simps) (cases emit; auto simp: and_then_Inr_iff)
  next
    case rows1: (Inr rows1)
    show ?thesis
    proof (cases "py_contains ''items'' node")
      case (Inl e)
      with emit rows1 show ?thesis by (subst traverse_node.simps) simp
    next
      case (Inr has_items)
      with emit rows1 show ?thesis
        by (subst traverse_node.simps)
           (cases emit; cases has_items; auto simp: and_then_Inr_iff)
    qed
  qed
qed

lemma traverse_items_Cons_Inr_iff:
  "traverse_items F node p (c # cs) rows = Inr rows' \<longleftrightarrow>
     (\<exists>n rows1. py_getitem node ''name'' = Inr n \<and>
        traverse_node F c (if p \<noteq> [] then p @ ''/'' @ py_str F n else py_str F n) rows = Inr rows1 \<and>
        traverse_items F node p cs rows1 = Inr rows')"
  by (auto simp: and_then_Inr_iff)


lemma emitting_simps [simp]:
  "emitting [] = []"
  "emitting ((s, anc, node) # vs) =
     (if has_value_and_account_id node then (s, anc, node) # emitting vs else emitting vs)"
  "emitting (xs @ ys) = emitting xs @ emitting ys"
  by (simp_all add: emitting_def)

lemma traverse_rows:
  "traverse_node F node p rows = Inr rows' \<Longrightarrow> p = path_of F s anc \<Longrightarrow> s \<noteq> [] \<Longrightarrow>
     \<exists>new. rows' = rows @ new \<and>
           list_all2 (row_matches F) (emitting (map (Pair s) (visits node anc))) new"
  "traverse_items F node p cs rows = Inr rows' \<Longrightarrow> p = path_of F s anc \<Longrightarrow> s \<noteq> [] \<Longrightarrow>
     \<exists>new. rows' = rows @ new \<and>
           list_all2 (row_matches F)
             (emitting (map (Pair s) (concat (map (\<lambda>c. visits c (anc @ [node])) cs)))) new"
proof (induction F node p rows and F node p cs rows arbitrary: rows' anc and rows' anc
       rule: traverse_node_traverse_items.induct)
  case (1 F node p rows)
  from "1.prems"(1) obtain emit rows1 has_items where
    emit: "emit_condition node = Inr emit"
    and rows1: "if emit then \<exists>r. row_dict F node p = Inr r \<and> rows1 = rows @ [r] else rows1 = rows"
    and has_items: "py_contains ''items'' node = Inr has_items"
    and rest: "if has_items
         then \<exists>cs. and_then (py_getitem node ''items'') py_iter = Inr cs \<and>
                   traverse_items F node p cs rows1 = Inr rows'
         else rows' = rows1"
    unfolding traverse_node_Inr_iff by blast
  have spec: "emit = has_value_and_account_id node"
    using emit by (rule emit_condition_spec)
  have own: "\<exists>new1. rows1 = rows @ new1 \<and>
      list_all2 (row_matches F) (emitting [(s, anc, node)]) new1"
  proof (cases emit)
    case True
    with rows1 obtain r where r: "row_dict F node p = Inr r" and "rows1 = rows @ [r]" by auto
    moreover from r "1.prems"(2) have "row_matches F (s, anc, node) r" by (rule row_dict_matches)
    ultimately show ?thesis using True spec by simp
  next
    case False
    with rows1 spec show ?thesis by simp
  qed
  have kids: "\<exists>new2. rows' = rows1 @ new2 \<and>
      list_all2 (row_matches F)
        (emitting (map (Pair s) (concat (map (\<lambda>c. visits c (anc @ [node])) (children_of node))))) new2"
  proof (cases has_items)
    case True
    with rest obtain cs where cs: "and_then (py_getitem node ''items'') py_iter = Inr cs"
      and t: "traverse_items F node p cs rows1 = Inr rows'" by auto
    have r1: "(if emit then and_then (row_dict F node p) (\<lambda>r. Inr (rows @ [r])) else Inr rows) = Inr rows1"
      using rows1 by (cases emit) auto
    from "1.IH" [OF emit r1 has_items True cs t "1.prems"(2,3)] children_of_items [OF cs]
    show ?thesis by simp
  next
    case False
    with rest has_items show ?thesis by (simp add: children_of_no_items)
  qed
  from own obtain new1 where n1: "rows1 = rows @ new1"
    and m1: "list_all2 (row_matches F) (emitting [(s, anc, node)]) new1" by blast
  from kids obtain new2 where n2: "rows' = rows1 @ new2"
    and m2: "list_all2 (row_matches F)
        (emitting (map (Pair s) (concat (map (\<lambda>c. visits c (anc @ [node])) (children_of node))))) new2"
    by blast
  have "visits node anc = (anc, node) # concat (map (\<lambda>c. visits c (anc @ [node])) (children_of node))"
    by (subst visits.simps) simp
  then have "emitting (map (Pair s) (visits node anc)) =
      emitting [(s, anc, node)] @
      emitting (map (Pair s) (concat (map (\<lambda>c. visits c (anc @ [node])) (children_of node))))"
    by simp
  with m1 m2 have "list_all2 (row_matches F) (emitting (map (Pair s) (visits node anc))) (new1 @ new2)"
    by (simp only: list_all2_appendI)
  with n1 n2 show ?case by auto
next
  case (2 F node p rows)
  then show ?case by simp
next
  case (3 F node p child rest rows)
  from "3.prems"(1) obtain n rows1 where
    n: "py_getitem node ''name'' = Inr n"
    and c: "traverse_node F child (if p \<noteq> [] then p @ ''/'' @ py_str F n else py_str F n) rows = Inr rows1"
    and r: "traverse_items F node p rest rows1 = Inr rows'"
    unfolding traverse_items_Cons_Inr_iff by blast
  have cp: "(if p \<noteq> [] then p @ ''/'' @ py_str F n else py_str F n) = path_of F s (anc @ [node])"
    unfolding "3.prems"(2) using "3.prems"(3) n by (rule path_of_child)
  from "3.IH"(1) [OF n c cp "3.prems"(3)] obtain new1 where n1: "rows1 = rows @ new1"
    and m1: "list_all2 (row_matches F) (emitting (map (Pair s) (visits child (anc @ [node])))) new1"
    by blast
  from "3.IH"(2) [OF n c r "3.prems"(2,3)] obtain new2 where n2: "rows' = rows1 @ new2"
    and m2: "list_all2 (row_matches F)
        (emitting (map (Pair s) (concat (map (\<lambda>c. visits c (anc @ [node])) rest)))) new2"
    by blast
  from m1 m2 have "list_all2 (row_matches F)
        (emitting (map (Pair s) (concat (map (\<lambda>c. visits c (anc @ [node])) (child # rest)))))
        (new1 @ new2)"
    by (simp add: list_all2_appendI)
  with n1 n2 show ?case by auto
qed


lemma tag_section: "(\<lambda>(ancestors, node). (s, ancestors, node)) = Pair s"
  by (simp add: fun_eq_iff)

lemma py_contains_False_getitem:
  "py_contains k d = Inr False \<Longrightarrow> \<exists>e. py_getitem d k = Inl e"
  by (cases d) (auto simp: key_present_iff)

lemma section_visits_absent:
  "py_contains s d = Inr False \<Longrightarrow> section_visits d s = []"
  by (auto simp: section_visits_def dest: py_contains_False_getitem)

lemma section_visits_present:
  "py_getitem d s = Inr tree \<Longrightarrow> section_visits d s = map (Pair s) (visits tree [])"
  by (simp add: section_visits_def tag_section)

lemma process_sections_rows:
  "process_sections F d secs rows = Inr rows' \<Longrightarrow> \<forall>s\<in>set secs. s \<noteq> [] \<Longrightarrow>
     \<exists>new. rows' = rows @ new \<and>
           list_all2 (row_matches F) (emitting (concat (map (section_visits d) secs))) new"
proof (induction secs arbitrary: rows rows')
  case Nil
  then show ?case by simp
next
  case (Cons s secs)
  from Cons.prems(1) obtain present rows1 where
    present: "py_contains s d = Inr present"
    and step: "(if present then and_then (py_getitem d s) (\<lambda>tree. traverse_node F tree s rows)
                else Inr rows) = Inr rows1"
    and rest: "process_sections F d secs rows1 = Inr rows'"
    unfolding process_sections.simps and_then_Inr_iff by blast
  have "\<exists>new1. rows1 = rows @ new1 \<and> list_all2 (row_matches F) (emitting (section_visits d s)) new1"
  proof (cases present)
    case True
    with step obtain tree where tree: "py_getitem d s = Inr tree"
      and t: "traverse_node F tree s rows = Inr rows1"
      by (auto simp: and_then_Inr_iff)
    have "s = path_of F s []" by (simp add: path_of_def)
    moreover from Cons.prems(2) have "s \<noteq> []" by simp
    ultimately show ?thesis
      using traverse_rows(1) [OF t] by (simp add: section_visits_present [OF tree])
  next
    case False
    with step present show ?thesis by (simp add: section_visits_absent)
  qed
  then obtain new1 where n1: "rows1 = rows @ new1"
    and m1: "list_all2 (row_matches F) (emitting (section_visits d s)) new1" by blast
  from Cons.IH [OF rest] Cons.prems(2) obtain new2 where n2: "rows' = rows1 @ new2"
    and m2: "list_all2 (row_matches F) (emitting (concat (map (section_visits d) secs))) new2"
    by auto
  from m1 m2 have "list_all2 (row_matches F)
      (emitting (concat (map (section_visits d) (s # secs)))) (new1 @ new2)"
    by (simp add: list_all2_appendI)
  with n1 n2 show ?case by auto
qed

lemma rows_follow_visits:
  "collect_rows F d = Inr rows \<Longrightarrow>
   list_all2 (row_matches F) (emitting (document_visits d)) rows"
proof -
  assume "collect_rows F d = Inr rows"
  then have "process_sections F d [''assets'', ''liabilities'', ''equity''] [] = Inr rows"
    by (simp only: collect_rows_def)
  from process_sections_rows [OF this] show ?thesis
    by (simp add: document_visits_def)
qed

text \<open>The rows already collected do not influence a traversal.\<close>

lemma traverse_items_acc:
  assumes "\<And>c p rows. c \<in> set cs \<Longrightarrow>
             traverse_node F c p rows = and_then (traverse_node F c p []) (\<lambda>new. Inr (rows @ new))"
  shows "traverse_items F node p cs rows =
           and_then (traverse_items F node p cs []) (\<lambda>new. Inr (rows @ new))"
  using assms
proof (induction cs arbitrary: rows)
  case Nil
  then show ?case by simp
next
  case (Cons c cs)
  show ?case
  proof (cases "py_getitem node ''name''")
    case (Inl e)
    then show ?thesis by simp
  next
    case (Inr n)
    let ?cp = "if p \<noteq> [] then p @ ''/'' @ py_str F n else py_str F n"
    have c: "traverse_node F c ?cp rows = and_then (traverse_node F c ?cp []) (\<lambda>new. Inr (rows @ new))"
      by (rule Cons.prems) simp
    have ih: "traverse_items F node p cs rs =
           and_then (traverse_items F node p cs []) (\<lambda>new. Inr (rs @ new))" for rs
      by (rule Cons.IH) (rule Cons.prems, simp)
    show ?thesis
    proof (cases "traverse_node F c ?cp []")
      case (Inl e)
      from c have "traverse_node F c ?cp rows = Inl e" unfolding Inl by simp
      with Inr Inl show ?thesis by simp
    next
      case new1: (Inr new1)
      from c have cr: "traverse_node F c ?cp rows = Inr (rows @ new1)" unfolding new1 by simp
      show ?thesis
      proof (cases "traverse_items F node p cs []")
        case (Inl e)
        from ih [of "rows @ new1"] have "traverse_items F node p cs (rows @ new1) = Inl e"
          unfolding Inl by simp
        moreover from ih [of new1] have "traverse_items F node p cs new1 = Inl e"
          unfolding Inl by simp
        ultimately show ?thesis using Inr cr new1 by simp
      next
        case new2: (Inr new2)
        from ih [of "rows @ new1"]
        have "traverse_items F node p cs (rows @ new1) = Inr ((rows @ new1) @ new2)"
          unfolding new2 by simp
        moreover from ih [of new1] have "traverse_items F node p cs new1 = Inr (new1 @ new2)"
          unfolding new2 by simp
        ultimately show ?thesis using Inr cr new1 by simp
      qed
    qed
  qed
qed

lemma traverse_node_acc:
  "traverse_node F node p rows = and_then (traverse_node F node p []) (\<lambda>new. Inr (rows @ new))"
proof (induction "jsize node" arbitrary: node p rows rule: less_induct)
  case less
  show ?case
  proof (cases "emit_condition node")
    case (Inl e)
    then show ?thesis by (simp add: traverse_node.simps)
  next
    case emit: (Inr emit)
    show ?thesis
    proof (cases "if emit then row_dict F node p else Inr undefined")
      case (Inl e)
      with emit show ?thesis by (cases emit) (simp_all add: traverse_node.simps)
    next
      case row: (Inr r)
      define own where "own = (if emit then [r] else [])"
      have step: "(if emit then and_then (row_dict F node p) (\<lambda>r. Inr (rs @ [r])) else Inr rs)
                   = Inr (rs @ own)" for rs
        using row by (cases emit) (simp_all add: own_def)
      show ?thesis
      proof (cases "py_contains ''items'' node")
        case (Inl e)
        with emit step show ?thesis by (simp add: traverse_node.simps)
      next
        case has: (Inr has_items)
        show ?thesis
        proof (cases has_items)
          case False
          with emit has step show ?thesis by (simp add: traverse_node.simps)
        next
          case True
          show ?thesis
          proof (cases "and_then (py_getitem node ''items'') py_iter")
            case (Inl e)
            with emit has True step show ?thesis by (simp add: traverse_node.simps)
          next
            case (Inr cs)
            have small: "jsize c < jsize node" if "c \<in> set cs" for c
              using that items_size_children [OF Inr] jsize_member_items [of c cs] by simp
            have items: "traverse_items F node p cs rs =
                and_then (traverse_items F node p cs []) (\<lambda>new. Inr (rs @ new))" for rs
              by (rule traverse_items_acc) (rule less, rule small)
            from emit has True Inr step
            have unfold: "traverse_node F node p rs = traverse_items F node p cs (rs @ own)" for rs
              by (simp add: traverse_node.simps)
            show ?thesis
            proof (cases "traverse_items F node p cs []")
              case (Inl e)
              from items [of "rows @ own"] have "traverse_items F node p cs (rows @ own) = Inl e"
                unfolding Inl by simp
              moreover from items [of own] have "traverse_items F node p cs own = Inl e"
                unfolding Inl by simp
              ultimately show ?thesis by (simp add: unfold [of rows] unfold [of "[]"])
            next
              case new2: (Inr new2)
              from items [of "rows @ own"]
              have "traverse_items F node p cs (rows @ own) = Inr ((rows @ own) @ new2)"
                unfolding new2 by simp
              moreover from items [of own] have "traverse_items F node p cs own = Inr (own @ new2)"
                unfolding new2 by simp
              ultimately show ?thesis by (simp add: unfold [of rows] unfold [of "[]"])
            qed
          qed
        qed
      qed
    qed
  qed
qed

lemma section_step:
  "and_then (py_contains s (JObj kvs)) (\<lambda>present.
     and_then (if present
               then and_then (py_getitem (JObj kvs) s) (\<lambda>tree. traverse_node F tree s rows)
               else Inr rows) k)
   = and_then (section_rows F (JObj kvs) s) (\<lambda>new. k (rows @ new))"
proof (cases "map_of kvs s")
  case None
  then show ?thesis by (simp add: section_rows_def key_present_iff)
next
  case (Some tree)
  have "traverse_node F tree s rows = and_then (traverse_node F tree s []) (\<lambda>new. Inr (rows @ new))"
    by (rule traverse_node_acc)
  then show ?thesis
    by (cases "traverse_node F tree s []") (simp_all add: Some section_rows_def key_present_iff)
qed

lemma sections_decomposition:
  "collect_rows F (JObj kvs) =
     and_then (section_rows F (JObj kvs) ''assets'') (\<lambda>a.
     and_then (section_rows F (JObj kvs) ''liabilities'') (\<lambda>l.
     and_then (section_rows F (JObj kvs) ''equity'') (\<lambda>e.
     Inr (a @ l @ e))))"
  unfolding collect_rows_def process_sections.simps section_step by simp

lemma list_all2_map1_weaken:
  "list_all2 P xs ys \<Longrightarrow> (\<And>x y. P x y \<Longrightarrow> Q (f x) y) \<Longrightarrow> list_all2 Q (map f xs) ys"
  by (induction rule: list_all2_induct) simp_all

lemma emitting_nodes:
  "map (\<lambda>(section, ancestors, node). node) (emitting vs) =
   filter has_value_and_account_id (map (\<lambda>(section, ancestors, node). node) vs)"
  by (induction vs) (auto simp: emitting_def)

lemma path_of_simps:
  "path_of F s [] = s"
  "path_of F s (anc @ [parent]) = path_of F s anc @ ''/'' @ name_in_path F parent"
proof -
  show "path_of F s [] = s" by (simp add: path_of_def)
  have "path_of F s (anc @ [parent])
          = slash_join ((s # map (name_in_path F) anc) @ [name_in_path F parent])"
    by (simp add: path_of_def)
  also have "\<dots> = path_of F s anc @ ''/'' @ name_in_path F parent"
    by (simp only: path_of_def slash_join_snoc [OF list.distinct(2)])
  finally show "path_of F s (anc @ [parent]) = path_of F s anc @ ''/'' @ name_in_path F parent" .
qed

text \<open>On a document that can be walked the traversal returns.\<close>

lemma emit_condition_dict:
  "emit_condition (JObj kvs) = Inr (has_value_and_account_id (JObj kvs))"
  by (auto simp: emit_condition_def key_present_iff split: option.splits)

lemma row_dict_total:
  assumes "has_value_and_account_id node"
    and "py_getitem node ''name'' = Inr n"
    and "and_then (py_getitem node ''value'') (py_float F) = Inr v"
  shows "\<exists>r. row_dict F node p = Inr r"
proof -
  from assms(1) obtain a where "py_getitem node ''account_id'' = Inr a"
    by (cases node) (auto split: option.splits)
  with assms(2,3) show ?thesis by (simp add: row_dict_def)
qed

lemma traverse_items_total:
  assumes "cs \<noteq> [] \<longrightarrow> (\<exists>n. py_getitem node ''name'' = Inr n)"
    and "\<And>c p rows. c \<in> set cs \<Longrightarrow> \<exists>rows'. traverse_node F c p rows = Inr rows'"
  shows "\<exists>rows'. traverse_items F node p cs rows = Inr rows'"
proof (cases cs)
  case Nil
  then show ?thesis by simp
next
  case (Cons c0 cs0)
  with assms(1) obtain n where n: "py_getitem node ''name'' = Inr n" by auto
  from assms(2) show ?thesis
  proof (induction cs arbitrary: rows)
    case Nil
    show ?case by simp
  next
    case (Cons c cs)
    let ?cp = "if p \<noteq> [] then p @ ''/'' @ py_str F n else py_str F n"
    from Cons.prems [of c ?cp rows] obtain rows1 where c: "traverse_node F c ?cp rows = Inr rows1"
      by auto
    have "\<exists>rows'. traverse_items F node p cs rows1 = Inr rows'"
      by (rule Cons.IH) (rule Cons.prems, simp)
    with c n show ?case by simp
  qed
qed

lemma traverse_node_total:
  "traversable F node \<Longrightarrow> \<exists>rows'. traverse_node F node p rows = Inr rows'"
proof (induction arbitrary: p rows rule: traversable.induct)
  case (walk node kvs)
  have emit: "emit_condition node = Inr (has_value_and_account_id node)"
    unfolding walk(1) by (rule emit_condition_dict)
  have own: "\<exists>rows1. (if has_value_and_account_id node
                       then and_then (row_dict F node p) (\<lambda>r. Inr (rows @ [r]))
                       else Inr rows) = Inr rows1"
  proof (cases "has_value_and_account_id node")
    case True
    with walk(2) obtain n v where "py_getitem node ''name'' = Inr n"
      and "and_then (py_getitem node ''value'') (py_float F) = Inr v" by blast
    from row_dict_total [OF True this] obtain r where "row_dict F node p = Inr r" by blast
    with True show ?thesis by simp
  next
    case False
    then show ?thesis by simp
  qed
  then obtain rows1 where rows1: "(if has_value_and_account_id node
                       then and_then (row_dict F node p) (\<lambda>r. Inr (rows @ [r]))
                       else Inr rows) = Inr rows1" by blast
  show ?case
  proof (cases "map_of kvs ''items''")
    case None
    with walk(1) have "py_contains ''items'' node = Inr False"
      by (simp add: key_present_iff)
    with emit rows1 show ?thesis by (simp add: traverse_node.simps)
  next
    case (Some items)
    with walk(3) obtain cs where cs: "py_iter items = Inr cs" by auto
    from Some walk(1) have has: "py_contains ''items'' node = Inr True"
      by (simp add: key_present_iff)
    from Some cs walk(1) have get: "and_then (py_getitem node ''items'') py_iter = Inr cs"
      by simp
    from Some cs walk(1) have kids: "children_of node = cs" by simp
    have "\<exists>rows'. traverse_items F node p cs rows1 = Inr rows'"
    proof (rule traverse_items_total)
      show "cs \<noteq> [] \<longrightarrow> (\<exists>n. py_getitem node ''name'' = Inr n)"
        using walk(4) kids by simp
      show "\<exists>rows'. traverse_node F c p rows = Inr rows'" if "c \<in> set cs" for c p rows
        using walk(5) kids that by blast
    qed
    with emit rows1 has get show ?thesis by (simp add: traverse_node.simps)
  qed
qed

lemma section_rows_total:
  assumes "case map_of kvs s of None \<Rightarrow> True | Some tree \<Rightarrow> traversable F tree"
  shows "\<exists>rs. section_rows F (JObj kvs) s = Inr rs"
proof (cases "map_of kvs s")
  case None
  then show ?thesis by (simp add: section_rows_def)
next
  case (Some tree)
  with assms have "traversable F tree" by simp
  from traverse_node_total [OF this, of s "[]"] Some show ?thesis
    by (simp add: section_rows_def)
qed

lemma collect_rows_total:
  assumes "traversable_document F d"
  shows "\<exists>rows. collect_rows F d = Inr rows"
proof -
  from assms obtain kvs where d: "d = JObj kvs"
    and wf: "\<And>s. s \<in> set [''assets'', ''liabilities'', ''equity''] \<Longrightarrow>
              case map_of kvs s of None \<Rightarrow> True | Some tree \<Rightarrow> traversable F tree"
    unfolding traversable_document_def by blast
  obtain a where a: "section_rows F (JObj kvs) ''assets'' = Inr a"
    using section_rows_total [OF wf [of "''assets''"]] by auto
  obtain l where l: "section_rows F (JObj kvs) ''liabilities'' = Inr l"
    using section_rows_total [OF wf [of "''liabilities''"]] by auto
  obtain e where e: "section_rows F (JObj kvs) ''equity'' = Inr e"
    using section_rows_total [OF wf [of "''equity''"]] by auto
  show ?thesis unfolding d sections_decomposition a l e by simp
qed

subsection \<open>Evaluating the traversal, the data frame and the visits on concrete documents\<close>

lemmas frame_eval = stored_frame_def stored_column_def too_large_def is_text_def is_integer_def
  as_text_def int_str_def digits.simps

lemma rows_of_example:
  "collect_rows exact_runtime example_document =
     Inr [\<lparr>row_account_id = JStr ''A1'', row_path = ''assets/assets'',
           row_name = JStr ''cash'', row_value = 60\<rparr>,
          \<lparr>row_account_id = JStr ''A2'', row_path = ''assets/assets'',
           row_name = JStr ''ar'', row_value = 40\<rparr>,
          \<lparr>row_account_id = JStr ''L1'', row_path = ''liabilities/liabilities'',
           row_name = JStr ''ap'', row_value = 40\<rparr>,
          \<lparr>row_account_id = JStr ''E1'', row_path = ''equity'',
           row_name = JStr ''equity'', row_value = 60\<rparr>]"
  by (simp add: collect_rows_def example_document_def example_assets_def
        example_liabilities_def example_equity_def traverse_node.simps emit_condition_def
        row_dict_def)

lemma frame_of_example:
  "get_all_child_values exact_runtime example_document =
     Inr [\<lparr>row_account_id = JStr ''A1'', row_path = ''assets/assets'',
           row_name = JStr ''cash'', row_value = 60\<rparr>,
          \<lparr>row_account_id = JStr ''A2'', row_path = ''assets/assets'',
           row_name = JStr ''ar'', row_value = 40\<rparr>,
          \<lparr>row_account_id = JStr ''L1'', row_path = ''liabilities/liabilities'',
           row_name = JStr ''ap'', row_value = 40\<rparr>,
          \<lparr>row_account_id = JStr ''E1'', row_path = ''equity'',
           row_name = JStr ''equity'', row_value = 60\<rparr>]"
  by (simp add: get_all_child_values_def rows_of_example frame_eval)

lemma rows_of_mixed:
  "collect_rows exact_runtime mixed_ids_document =
     Inr [\<lparr>row_account_id = JStr ''A1'', row_path = ''assets/assets'',
           row_name = JStr ''cash'', row_value = 60\<rparr>,
          \<lparr>row_account_id = JInt 7, row_path = ''assets/assets'',
           row_name = JStr ''ar'', row_value = 40\<rparr>]"
  by (simp add: collect_rows_def mixed_ids_document_def traverse_node.simps emit_condition_def
        row_dict_def)

lemma frame_of_mixed:
  "get_all_child_values exact_runtime mixed_ids_document =
     Inr [\<lparr>row_account_id = JStr ''A1'', row_path = ''assets/assets'',
           row_name = JStr ''cash'', row_value = 60\<rparr>,
          \<lparr>row_account_id = JStr ''7'', row_path = ''assets/assets'',
           row_name = JStr ''ar'', row_value = 40\<rparr>]"
  by (simp add: get_all_child_values_def rows_of_mixed frame_eval)

lemma rows_of_large:
  "collect_rows exact_runtime large_id_document =
     Inr [\<lparr>row_account_id = JInt (2 ^ 200), row_path = ''assets'',
           row_name = JStr ''assets'', row_value = 1\<rparr>]"
  by (simp add: collect_rows_def large_id_document_def traverse_node.simps emit_condition_def
        row_dict_def)

lemma frame_of_large:
  "get_all_child_values exact_runtime large_id_document = Inl OverflowError"
  by (simp add: get_all_child_values_def rows_of_large frame_eval)

lemma nameless_fails:
  "collect_rows exact_runtime nameless_document = Inl (KeyError ''name'')"
  "get_all_child_values exact_runtime nameless_document = Inl (KeyError ''name'')"
  by (simp_all add: get_all_child_values_def collect_rows_def nameless_document_def
       traverse_node.simps emit_condition_def row_dict_def)

lemma rows_of_unvalued:
  "collect_rows exact_runtime unvalued_document =
     Inr [\<lparr>row_account_id = JStr ''A1'', row_path = ''assets/assets'',
           row_name = JStr ''cash'', row_value = 60\<rparr>]"
  by (simp add: collect_rows_def unvalued_document_def traverse_node.simps emit_condition_def
        row_dict_def)

lemma visits_no_children: "children_of node = [] \<Longrightarrow> visits node anc = [(anc, node)]"
  by (subst visits.simps) simp

lemma visits_with_children:
  "children_of node \<noteq> [] \<Longrightarrow>
   visits node anc =
     (anc, node) # concat (map (\<lambda>child. visits child (anc @ [node])) (children_of node))"
  by (subst visits.simps) simp

lemma visits_of_example:
  "document_visits example_document =
     [(''assets'', [], example_assets),
      (''assets'', [example_assets],
         JObj [(''name'', JStr ''cash''), (''value'', JInt 60), (''account_id'', JStr ''A1'')]),
      (''assets'', [example_assets],
         JObj [(''name'', JStr ''ar''), (''value'', JInt 40), (''account_id'', JStr ''A2'')]),
      (''liabilities'', [], example_liabilities),
      (''liabilities'', [example_liabilities],
         JObj [(''name'', JStr ''ap''), (''value'', JInt 40), (''account_id'', JStr ''L1'')]),
      (''equity'', [], example_equity)]"
  by (simp add: document_visits_def section_visits_def example_document_def
        example_assets_def example_liabilities_def example_equity_def
        visits_no_children visits_with_children)


lemma and_then_assoc: "and_then (and_then m f) g = and_then m (\<lambda>x. and_then (f x) g)"
  by (cases m) simp_all

lemma frame_decomposition:
  "get_all_child_values F (JObj kvs) =
     and_then (section_rows F (JObj kvs) ''assets'') (\<lambda>a.
     and_then (section_rows F (JObj kvs) ''liabilities'') (\<lambda>l.
     and_then (section_rows F (JObj kvs) ''equity'') (\<lambda>e.
     data_frame F (a @ l @ e))))"
  by (simp add: get_all_child_values_def sections_decomposition and_then_assoc)

lemma frame_from_rows:
  "get_all_child_values F d = Inr frame \<longleftrightarrow>
     (\<exists>rows. collect_rows F d = Inr rows \<and> data_frame F rows = Inr frame)"
  by (simp add: get_all_child_values_def and_then_Inr_iff)

lemma stored_column_length: "stored_column cells = Inr cells' \<Longrightarrow> length cells' = length cells"
  by (auto simp: stored_column_def split: if_splits)

lemma stored_frame_paths:
  assumes "stored_frame rs = Inr fr"
  shows "map row_path fr = map row_path rs"
proof -
  from assms obtain accs names where
    a: "stored_column (map row_account_id rs) = Inr accs"
    and n: "stored_column (map row_name rs) = Inr names"
    and fr: "fr = map (\<lambda>(r, a, n). r\<lparr>row_account_id := a, row_name := n\<rparr>) (zip rs (zip accs names))"
    by (auto simp: stored_frame_def and_then_Inr_iff)
  from a n have len: "length (zip accs names) = length rs"
    by (auto dest!: stored_column_length)
  have "map row_path fr = map row_path (map fst (zip rs (zip accs names)))"
    by (simp add: fr case_prod_beta)
  also from len have "map fst (zip rs (zip accs names)) = rs"
    by (simp add: map_fst_zip)
  finally show ?thesis .
qed

lemma traversable_leafI:
  "(\<exists>n. py_getitem (JObj kvs) ''name'' = Inr n) \<Longrightarrow>
   (\<exists>v. and_then (py_getitem (JObj kvs) ''value'') (py_float F) = Inr v) \<Longrightarrow>
   map_of kvs ''items'' = None \<Longrightarrow>
   traversable F (JObj kvs)"
  by (rule traversable.walk [where kvs = kvs]) simp_all

lemma example_sections_traversable:
  "traversable exact_runtime example_assets"
  "traversable exact_runtime example_liabilities"
  "traversable exact_runtime example_equity"
proof -
  have leaf: "traversable exact_runtime
       (JObj [(''name'', JStr n), (''value'', JInt v), (''account_id'', JStr a)])" for n v a
    by (rule traversable_leafI) simp_all
  show "traversable exact_runtime example_assets"
    unfolding example_assets_def
    by (rule traversable.walk [OF refl]) (simp_all add: leaf)
  show "traversable exact_runtime example_liabilities"
    unfolding example_liabilities_def
    by (rule traversable.walk [OF refl]) (simp_all add: leaf)
  show "traversable exact_runtime example_equity"
    unfolding example_equity_def by (rule leaf)
qed

lemma example_is_traversable: "traversable_document exact_runtime example_document"
  by (simp add: traversable_document_def example_document_def example_sections_traversable)

lemma unvalued_is_traversable: "traversable_document exact_runtime unvalued_document"
proof -
  have memo: "traversable exact_runtime (JObj [(''name'', JStr ''note''), (''account_id'', JStr ''N1'')])"
    by (rule traversable.walk [OF refl]) simp_all
  have cash: "traversable exact_runtime
     (JObj [(''name'', JStr ''cash''), (''value'', JInt 60), (''account_id'', JStr ''A1'')])"
    by (rule traversable_leafI) simp_all
  have "traversable exact_runtime
     (JObj [(''name'', JStr ''assets''),
            (''items'',
             JArr [JObj [(''name'', JStr ''note''), (''account_id'', JStr ''N1'')],
                   JObj [(''name'', JStr ''cash''), (''value'', JInt 60),
                         (''account_id'', JStr ''A1'')]])])"
    by (rule traversable.walk [OF refl]) (simp_all add: memo cash)
  then show ?thesis by (simp add: traversable_document_def unvalued_document_def)
qed

lemma large_id_is_traversable: "traversable_document exact_runtime large_id_document"
proof -
  have "traversable exact_runtime
     (JObj [(''name'', JStr ''assets''), (''value'', JInt 1), (''account_id'', JInt (2 ^ 200))])"
    by (rule traversable_leafI) simp_all
  then show ?thesis by (simp add: traversable_document_def large_id_document_def)
qed

lemma visits_of_unvalued:
  "document_nodes unvalued_document =
     [JObj [(''name'', JStr ''assets''),
            (''items'',
             JArr [JObj [(''name'', JStr ''note''), (''account_id'', JStr ''N1'')],
                   JObj [(''name'', JStr ''cash''), (''value'', JInt 60),
                         (''account_id'', JStr ''A1'')]])],
      JObj [(''name'', JStr ''note''), (''account_id'', JStr ''N1'')],
      JObj [(''name'', JStr ''cash''), (''value'', JInt 60), (''account_id'', JStr ''A1'')]]"
  by (simp add: document_nodes_def document_visits_def section_visits_def unvalued_document_def
        visits_no_children visits_with_children)

lemma nodes_of_mixed:
  "filter has_value_and_account_id (document_nodes mixed_ids_document) =
     [JObj [(''name'', JStr ''cash''), (''value'', JInt 60), (''account_id'', JStr ''A1'')],
      JObj [(''name'', JStr ''ar''), (''value'', JInt 40), (''account_id'', JInt 7)]]"
  by (simp add: document_nodes_def document_visits_def section_visits_def mixed_ids_document_def
        visits_no_children visits_with_children)

lemma nodes_of_large:
  "filter has_value_and_account_id (document_nodes large_id_document) =
     [JObj [(''name'', JStr ''assets''), (''value'', JInt 1), (''account_id'', JInt (2 ^ 200))]]"
  by (simp add: document_nodes_def document_visits_def section_visits_def large_id_document_def
        visits_no_children visits_with_children)

section \<open>The claims\<close>

subsection \<open>Schema Checker\<close>

text \<open>
  Claim C5. \<open>validate_balance_sheet_json_schema\<close> raises a validation error if and only
  if the document lacks one of the keys \<open>assets\<close>, \<open>liabilities\<close>, \<open>equity\<close> or one of
  them is not an object. Nothing below the three keys is checked: a document that has
  the three keys with objects passes whatever the objects hold.
\<close>

theorem schema_checks_top_level_only:
  "fst (validate_balance_sheet_json_schema (d :: 'f json)) =
     (if has_object d ''assets'' \<and> has_object d ''liabilities'' \<and> has_object d ''equity''
      then Inr () else Inl ValidationError) \<and>
   fst (validate_balance_sheet_json_schema
         (JObj [(''assets'', JObj a), (''liabilities'', JObj l), (''equity'', JObj e)]
            :: 'f json)) = Inr ()"
proof
  show "fst (validate_balance_sheet_json_schema d) =
     (if has_object d ''assets'' \<and> has_object d ''liabilities'' \<and> has_object d ''equity''
      then Inr () else Inl ValidationError)"
  proof (cases d)
    case (JObj kvs)
    show ?thesis
      unfolding validate_balance_sheet_json_schema_def balance_sheet_schema_def has_object_def JObj
      by (auto simp: key_present_iff split: option.splits json.splits)
  qed (simp_all add: validate_balance_sheet_json_schema_def balance_sheet_schema_def
         has_object_def)
  show "fst (validate_balance_sheet_json_schema
         (JObj [(''assets'', JObj a), (''liabilities'', JObj l), (''equity'', JObj e)]
            :: 'f json)) = Inr ()"
    by (simp add: validate_balance_sheet_json_schema_def balance_sheet_schema_def)
qed

theorem schema_checks_top_level_only_witness:
  "fst (validate_balance_sheet_json_schema hollow_document) = Inr () \<and>
   fst (validate_balance_sheet_json_schema partial_document) = Inl ValidationError \<and>
   fst (validate_balance_sheet_json_schema
         (JObj [(''assets'', JObj []), (''liabilities'', JObj []),
                (''equity'', JArr [] :: rat json)])) = Inl ValidationError"
proof -
  have h: "has_object hollow_document ''assets'' \<and> has_object hollow_document ''liabilities''
        \<and> has_object hollow_document ''equity''"
    by (simp add: hollow_document_def has_object_def)
  have p: "\<not> has_object partial_document ''assets''"
    by (simp add: partial_document_def has_object_def)
  have q: "\<not> has_object (JObj [(''assets'', JObj []), (''liabilities'', JObj []),
                (''equity'', JArr [] :: rat json)]) ''equity''"
    by (simp add: has_object_def)
  have "fst (validate_balance_sheet_json_schema hollow_document) = Inr ()"
    using schema_checks_top_level_only [of hollow_document "[]" "[]" "[]"] h by simp
  moreover have "fst (validate_balance_sheet_json_schema partial_document) = Inl ValidationError"
    using schema_checks_top_level_only [of partial_document "[]" "[]" "[]"] p by simp
  moreover have "fst (validate_balance_sheet_json_schema
         (JObj [(''assets'', JObj []), (''liabilities'', JObj []),
                (''equity'', JArr [] :: rat json)])) = Inl ValidationError"
    using schema_checks_top_level_only
            [of "JObj [(''assets'', JObj []), (''liabilities'', JObj []),
                       (''equity'', JArr [] :: rat json)]" "[]" "[]" "[]"] q
    by simp
  ultimately show ?thesis by simp
qed

subsection \<open>Sum Validator\<close>

text \<open>
  Claim C4. A call of \<open>validate_node_sum\<close> that returns, returns the node's own declared
  value \<open>float(node["value"])\<close>, not the sum recomputed from its children; and for a node
  without an \<open>items\<close> key the result is that value, with no check and no log record.
\<close>

theorem validate_node_sum_returns_declared_value:
  "(fst (validate_node_sum F node) = Inr v \<longrightarrow>
      and_then (py_getitem node ''value'') (py_float F) = Inr v) \<and>
   (py_contains ''items'' node = Inr False \<longrightarrow>
      validate_node_sum F node = (and_then (py_getitem node ''value'') (py_float F), []))"
proof (intro conjI impI)
  assume "fst (validate_node_sum F node) = Inr v"
  then show "and_then (py_getitem node ''value'') (py_float F) = Inr v"
    by (rule validate_node_sum_Inr_value)
next
  assume leaf: "py_contains ''items'' node = Inr False"
  show "validate_node_sum F node = (and_then (py_getitem node ''value'') (py_float F), [])"
    by (cases "and_then (py_getitem node ''value'') (py_float F)")
       (simp_all add: validate_node_sum_no_value validate_node_sum_leaf leaf)
qed

text \<open>
  At \<open>within_tolerance_node\<close> the children sum to 99.9921875 and the call returns the
  declared 100; the leaf \<open>cash\<close> returns its 60.
\<close>

theorem validate_node_sum_returns_declared_value_witness:
  "fst (validate_node_sum exact_runtime within_tolerance_node) = Inr 100 \<and>
   and_then (py_getitem within_tolerance_node ''value'') (py_float exact_runtime) = Inr 100 \<and>
   fl_sum exact_runtime [60, 5119 / 128] = 12799 / 128 \<and>
   py_contains ''items'' (JObj [(''name'', JStr ''cash''), (''value'', JInt 60)]) = Inr False \<and>
   validate_node_sum exact_runtime (JObj [(''name'', JStr ''cash''), (''value'', JInt 60)])
     = (Inr 60, [])"
proof -
  have ok: "fst (validate_node_sum exact_runtime within_tolerance_node) = Inr 100"
    by (simp add: within_tolerance_node_def validate_node_sum.simps validate_children.simps)
  have leaf: "py_contains ''items'' (JObj [(''name'', JStr ''cash''), (''value'', JInt 60)])
        = (Inr False :: error + bool)"
    by simp
  from validate_node_sum_returns_declared_value [of exact_runtime within_tolerance_node 100] ok
  have "and_then (py_getitem within_tolerance_node ''value'') (py_float exact_runtime) = Inr 100"
    by blast
  moreover
  from validate_node_sum_returns_declared_value
         [of exact_runtime "JObj [(''name'', JStr ''cash''), (''value'', JInt 60)]"] leaf
  have "validate_node_sum exact_runtime (JObj [(''name'', JStr ''cash''), (''value'', JInt 60)])
        = (and_then (py_getitem (JObj [(''name'', JStr ''cash''), (''value'', JInt 60)]) ''value'')
             (py_float exact_runtime), [])"
    by blast
  ultimately show ?thesis using ok leaf by simp
qed



text \<open>
  Claim C8, as amended. When a node's declared value disagrees with the sum of its
  children beyond the tolerance, the \<open>ValueError\<close> that is raised carries the node's
  name only, inside its message; the declared value and the computed sum are written to
  the error log record, together with the name, and are not part of the exception.
\<close>

theorem mismatch_error_names_node_and_log_holds_values:
  assumes "and_then (py_getitem node ''value'') (py_float F) = Inr v"
    and "and_then (py_getitem node ''items'') py_iter = Inr cs"
    and "fst (validate_children F cs) = Inr vs"
    and "py_getitem node ''name'' = Inr n"
    and "fl_gt F (fl_abs F (fl_sub F v (fl_sum F vs))) (fl_tol F)"
  shows "validate_node_sum F node =
           (Inl (ValueError (''Balance sheet validation failed: '' @ py_str F n @
                             '' value does not match sum of its children'')),
            [ValueMismatchLogged (py_str F n) v (fl_sum F vs)])"
  using assms by (simp add: validate_node_sum_checked mismatch_message_def)

theorem mismatch_error_names_node_and_log_holds_values_witness:
  "validate_node_sum exact_runtime mismatch_node =
     (Inl (ValueError
        ''Balance sheet validation failed: assets value does not match sum of its children''),
      [ValueMismatchLogged ''assets'' 100 90])"
proof -
  have "validate_node_sum exact_runtime mismatch_node =
           (Inl (ValueError (''Balance sheet validation failed: ''
                             @ py_str exact_runtime (JStr ''assets'') @
                             '' value does not match sum of its children'')),
            [ValueMismatchLogged (py_str exact_runtime (JStr ''assets'')) 100
               (fl_sum exact_runtime [60, 30])])"
    by (rule mismatch_error_names_node_and_log_holds_values
           [where cs = "[JObj [(''name'', JStr ''cash''), (''value'', JInt 60)],
                         JObj [(''name'', JStr ''ar''), (''value'', JInt 30)]]"])
       (simp_all add: mismatch_node_def validate_children_Cons validate_node_sum.simps)
  then show ?thesis by simp
qed

text \<open>
  The claim as stated fails: \<open>mismatch_node\<close> (declared 100, children sum 90) and
  \<open>other_mismatch_node\<close> (declared 7, children sum 1) raise the very same exception, so
  the exception carries neither the declared value nor the sum. Only the log records
  differ.
\<close>

theorem mismatch_error_omits_values:
  "fst (validate_node_sum exact_runtime mismatch_node) =
     Inl (ValueError
       ''Balance sheet validation failed: assets value does not match sum of its children'') \<and>
   fst (validate_node_sum exact_runtime other_mismatch_node) =
     Inl (ValueError
       ''Balance sheet validation failed: assets value does not match sum of its children'') \<and>
   snd (validate_node_sum exact_runtime mismatch_node) = [ValueMismatchLogged ''assets'' 100 90] \<and>
   snd (validate_node_sum exact_runtime other_mismatch_node) = [ValueMismatchLogged ''assets'' 7 1]"
  by (simp add: mismatch_node_def other_mismatch_node_def validate_node_sum.simps
        validate_children_Cons mismatch_message_def)

text \<open>
  Claim C2. Once the three section trees have passed \<open>validate_node_sum\<close>, the declared
  assets total is compared with the sum of the declared liabilities and equity totals
  by \<open>==\<close>, with no tolerance, and the \<open>AssertionError\<close> is raised if and only if the
  comparison fails.
\<close>

theorem balance_equation_is_strict:
  assumes "py_getitem d ''assets'' = Inr a" and "fst (validate_node_sum F a) = Inr av"
    and "py_getitem d ''liabilities'' = Inr l" and "fst (validate_node_sum F l) = Inr lv"
    and "py_getitem d ''equity'' = Inr e" and "fst (validate_node_sum F e) = Inr ev"
  shows "fst (validate_balance_sheet_equation F d) =
           (if fl_eq F av (fl_add F lv ev) then Inr av
            else Inl (AssertionError ''Assets do not equal liabilities plus equity''))"
  using assms
  by (simp add: validate_balance_sheet_equation_def fst_logged_then)

text \<open>
  In \<open>unbalanced_document\<close> the totals differ by 1/128, which is within 0.01, and the
  assertion fails all the same; the example document balances and passes.
\<close>

theorem balance_equation_is_strict_witness:
  "fl_gt exact_runtime (fl_abs exact_runtime (fl_sub exact_runtime 100
        (fl_add exact_runtime 40 (7679 / 128)))) (fl_tol exact_runtime) = False \<and>
   fst (validate_balance_sheet_equation exact_runtime unbalanced_document) =
     Inl (AssertionError ''Assets do not equal liabilities plus equity'') \<and>
   fst (validate_balance_sheet_equation exact_runtime example_document) = Inr 100"
proof -
  have u: "fst (validate_balance_sheet_equation exact_runtime unbalanced_document) =
           (if fl_eq exact_runtime 100 (fl_add exact_runtime 40 (7679 / 128)) then Inr 100
            else Inl (AssertionError ''Assets do not equal liabilities plus equity''))"
    by (rule balance_equation_is_strict
               [where a = "JObj [(''name'', JStr ''assets''), (''value'', JInt 100)]"
                  and l = "JObj [(''name'', JStr ''liabilities''), (''value'', JInt 40)]"
                  and e = "JObj [(''name'', JStr ''equity''),
                                 (''value'', JFloat (7679 / 128))]"])
       (simp_all add: unbalanced_document_def validate_node_sum.simps)
  have x: "fst (validate_balance_sheet_equation exact_runtime example_document) =
           (if fl_eq exact_runtime 100 (fl_add exact_runtime 40 60) then Inr 100
            else Inl (AssertionError ''Assets do not equal liabilities plus equity''))"
    by (rule balance_equation_is_strict
               [where a = example_assets and l = example_liabilities and e = example_equity])
       (simp_all add: example_document_def example_sections_validate)
  from u x show ?thesis by simp
qed

text \<open>
  Claim C9. When \<open>validate_balance_sheet_equation\<close> returns, it returns the declared
  assets total: the float of the \<open>value\<close> of the node under \<open>assets\<close>.
\<close>

theorem equation_returns_assets_total:
  "fst (validate_balance_sheet_equation F d) = Inr v \<Longrightarrow>
   and_then (py_getitem d ''assets'') (\<lambda>assets.
     and_then (py_getitem assets ''value'') (py_float F)) = Inr v"
proof -
  assume ok: "fst (validate_balance_sheet_equation F d) = Inr v"
  then obtain assets where a: "py_getitem d ''assets'' = Inr assets"
    by (cases "py_getitem d ''assets''") (simp_all add: validate_balance_sheet_equation_def)
  from ok a obtain av where av: "fst (validate_node_sum F assets) = Inr av"
    by (cases "fst (validate_node_sum F assets)")
       (simp_all add: validate_balance_sheet_equation_def fst_logged_then)
  from ok a av have "v = av"
    by (auto simp: validate_balance_sheet_equation_def fst_logged_then
             split: sum.splits if_splits)
  with av have "and_then (py_getitem assets ''value'') (py_float F) = Inr v"
    by (simp add: validate_node_sum_Inr_value)
  with a show ?thesis by simp
qed

theorem equation_returns_assets_total_witness:
  "validate_balance_sheet_equation exact_runtime example_document =
     (Inr 100, [Info ''All parent-child sums validated successfully'']) \<and>
   and_then (py_getitem example_document ''assets'') (\<lambda>assets.
     and_then (py_getitem assets ''value'') (py_float exact_runtime)) = Inr 100"
proof -
  have ok: "validate_balance_sheet_equation exact_runtime example_document =
     (Inr 100, [Info ''All parent-child sums validated successfully''])"
    by (simp add: validate_balance_sheet_equation_def example_document_def
          example_sections_validate)
  then have "fst (validate_balance_sheet_equation exact_runtime example_document) = Inr 100"
    by simp
  from equation_returns_assets_total [OF this] ok show ?thesis by simp
qed

subsection \<open>Flattener\<close>

text \<open>
  Claim C7. The rows appear in depth-first document order: the rows of the tree under
  \<open>assets\<close>, then of \<open>liabilities\<close>, then of \<open>equity\<close>, and, within a tree, the row of a
  node before the rows of its children, the children in the order of \<open>items\<close>. The rows
  collected are, one for one and in this order, the rows of the emitting nodes of
  \<open>section_visits\<close>; nothing is sorted, and the data frame that is returned is built
  from the rows in this order.
\<close>

theorem rows_in_document_order:
  "(collect_rows F d = Inr rows \<longrightarrow>
      list_all2 (row_matches F) (emitting (section_visits d ''assets'' @ section_visits d ''liabilities''
                  @ section_visits d ''equity'')) rows) \<and>
   (get_all_child_values F d = Inr frame \<longrightarrow>
      (\<exists>rows. collect_rows F d = Inr rows \<and> data_frame F rows = Inr frame \<and>
              list_all2 (row_matches F) (emitting (section_visits d ''assets'' @ section_visits d ''liabilities''
                  @ section_visits d ''equity'')) rows))"
proof -
  have *: "list_all2 (row_matches F) (emitting (section_visits d ''assets'' @ section_visits d ''liabilities''
                  @ section_visits d ''equity'')) rows"
    if "collect_rows F d = Inr rows" for rows
    using rows_follow_visits [OF that] by (simp add: document_visits_def)
  show ?thesis
    using * by (auto simp: frame_from_rows)
qed

theorem rows_in_document_order_witness:
  "map (\<lambda>(section, ancestors, node). (section, py_getitem node ''name''))
       (emitting (section_visits example_document ''assets''
                 @ section_visits example_document ''liabilities''
                 @ section_visits example_document ''equity''))
     = [(''assets'', Inr (JStr ''cash'')), (''assets'', Inr (JStr ''ar'')),
        (''liabilities'', Inr (JStr ''ap'')), (''equity'', Inr (JStr ''equity''))] \<and>
   list_all2 (row_matches exact_runtime)
     (emitting (section_visits example_document ''assets''
                 @ section_visits example_document ''liabilities''
                 @ section_visits example_document ''equity''))
     [\<lparr>row_account_id = JStr ''A1'', row_path = ''assets/assets'',
        row_name = JStr ''cash'', row_value = 60\<rparr>,
      \<lparr>row_account_id = JStr ''A2'', row_path = ''assets/assets'',
        row_name = JStr ''ar'', row_value = 40\<rparr>,
      \<lparr>row_account_id = JStr ''L1'', row_path = ''liabilities/liabilities'',
        row_name = JStr ''ap'', row_value = 40\<rparr>,
      \<lparr>row_account_id = JStr ''E1'', row_path = ''equity'',
        row_name = JStr ''equity'', row_value = 60\<rparr>] \<and>
   get_all_child_values exact_runtime example_document =
     Inr [\<lparr>row_account_id = JStr ''A1'', row_path = ''assets/assets'',
        row_name = JStr ''cash'', row_value = 60\<rparr>,
      \<lparr>row_account_id = JStr ''A2'', row_path = ''assets/assets'',
        row_name = JStr ''ar'', row_value = 40\<rparr>,
      \<lparr>row_account_id = JStr ''L1'', row_path = ''liabilities/liabilities'',
        row_name = JStr ''ap'', row_value = 40\<rparr>,
      \<lparr>row_account_id = JStr ''E1'', row_path = ''equity'',
        row_name = JStr ''equity'', row_value = 60\<rparr>]"
proof (intro conjI)
  have "section_visits example_document ''assets''
          @ section_visits example_document ''liabilities''
          @ section_visits example_document ''equity'' = document_visits example_document"
    by (simp add: document_visits_def)
  then show "map (\<lambda>(section, ancestors, node). (section, py_getitem node ''name''))
       (emitting (section_visits example_document ''assets''
                 @ section_visits example_document ''liabilities''
                 @ section_visits example_document ''equity''))
     = [(''assets'', Inr (JStr ''cash'')), (''assets'', Inr (JStr ''ar'')),
        (''liabilities'', Inr (JStr ''ap'')), (''equity'', Inr (JStr ''equity''))]"
    by (simp add: visits_of_example example_assets_def example_liabilities_def
          example_equity_def)
  from rows_in_document_order [of exact_runtime example_document] rows_of_example
  show "list_all2 (row_matches exact_runtime)
     (emitting (section_visits example_document ''assets''
                 @ section_visits example_document ''liabilities''
                 @ section_visits example_document ''equity''))
     [\<lparr>row_account_id = JStr ''A1'', row_path = ''assets/assets'',
        row_name = JStr ''cash'', row_value = 60\<rparr>,
      \<lparr>row_account_id = JStr ''A2'', row_path = ''assets/assets'',
        row_name = JStr ''ar'', row_value = 40\<rparr>,
      \<lparr>row_account_id = JStr ''L1'', row_path = ''liabilities/liabilities'',
        row_name = JStr ''ap'', row_value = 40\<rparr>,
      \<lparr>row_account_id = JStr ''E1'', row_path = ''equity'',
        row_name = JStr ''equity'', row_value = 60\<rparr>]"
    by blast
  show "get_all_child_values exact_runtime example_document =
     Inr [\<lparr>row_account_id = JStr ''A1'', row_path = ''assets/assets'',
        row_name = JStr ''cash'', row_value = 60\<rparr>,
      \<lparr>row_account_id = JStr ''A2'', row_path = ''assets/assets'',
        row_name = JStr ''ar'', row_value = 40\<rparr>,
      \<lparr>row_account_id = JStr ''L1'', row_path = ''liabilities/liabilities'',
        row_name = JStr ''ap'', row_value = 40\<rparr>,
      \<lparr>row_account_id = JStr ''E1'', row_path = ''equity'',
        row_name = JStr ''equity'', row_value = 60\<rparr>]"
    by (rule frame_of_example)
qed

text \<open>
  Claim C6, as amended. Whenever the traversal completes, the list of rows it has
  collected has as many rows as there are nodes in the three section trees that have
  both a \<open>value\<close> and a non-null \<open>account_id\<close>, and the rows are, one for one, the rows
  of these nodes: \<open>name\<close> is the node's name, \<open>value\<close> the float of its value and
  \<open>account_id\<close> its account id. The other nodes are visited (they are among
  \<open>document_nodes\<close>, and so are their descendants) and add no row. The traversal
  completes on every document that can be walked (as far as the model goes: it has no
  recursion limit). The function returns \<open>pl.DataFrame\<close> of the collected list: it
  returns only if the library accepts the list, and the frame holds the rows as the
  library stores them.
\<close>

theorem collected_rows_one_per_node_with_account_id:
  "(traversable_document F d \<longrightarrow>
      (\<exists>rows. collect_rows F d = Inr rows \<and> get_all_child_values F d = data_frame F rows)) \<and>
   (collect_rows F d = Inr rows \<longrightarrow>
      length rows = length (filter has_value_and_account_id (document_nodes d)) \<and>
      list_all2 (\<lambda>node r. py_getitem node ''name'' = Inr (row_name r) \<and>
                         and_then (py_getitem node ''value'') (py_float F) = Inr (row_value r) \<and>
                         py_getitem node ''account_id'' = Inr (row_account_id r))
        (filter has_value_and_account_id (document_nodes d)) rows) \<and>
   (get_all_child_values F d = Inr frame \<longrightarrow>
      (\<exists>rows. collect_rows F d = Inr rows \<and> data_frame F rows = Inr frame \<and>
              length rows = length (filter has_value_and_account_id (document_nodes d)) \<and>
              list_all2 (\<lambda>node r. py_getitem node ''name'' = Inr (row_name r) \<and>
                         and_then (py_getitem node ''value'') (py_float F) = Inr (row_value r) \<and>
                         py_getitem node ''account_id'' = Inr (row_account_id r))
                (filter has_value_and_account_id (document_nodes d)) rows))"
proof -
  have fields: "list_all2 (\<lambda>node r. py_getitem node ''name'' = Inr (row_name r) \<and>
                         and_then (py_getitem node ''value'') (py_float F) = Inr (row_value r) \<and>
                         py_getitem node ''account_id'' = Inr (row_account_id r))
        (filter has_value_and_account_id (document_nodes d)) rows"
    if "collect_rows F d = Inr rows" for rows
  proof -
    from that have "list_all2 (row_matches F) (emitting (document_visits d)) rows"
      by (rule rows_follow_visits)
    then have "list_all2 (\<lambda>node r. py_getitem node ''name'' = Inr (row_name r) \<and>
                         and_then (py_getitem node ''value'') (py_float F) = Inr (row_value r) \<and>
                         py_getitem node ''account_id'' = Inr (row_account_id r))
        (map (\<lambda>(section, ancestors, node). node) (emitting (document_visits d))) rows"
      by (rule list_all2_map1_weaken) (auto simp: row_matches_def)
    then show ?thesis by (simp only: emitting_nodes document_nodes_def)
  qed
  have count: "length rows = length (filter has_value_and_account_id (document_nodes d))"
    if "collect_rows F d = Inr rows" for rows
    using fields [OF that] by (auto dest: list_all2_lengthD)
  have total: "\<exists>rows. collect_rows F d = Inr rows \<and> get_all_child_values F d = data_frame F rows"
    if "traversable_document F d"
  proof -
    from collect_rows_total [OF that] obtain rows where "collect_rows F d = Inr rows" by blast
    then show ?thesis by (auto simp: get_all_child_values_def)
  qed
  show ?thesis
    using fields count total by (auto simp: frame_from_rows)
qed

text \<open>
  The example document has six nodes, four of them with a value and an account id, and
  four rows; the roots of \<open>assets\<close> and \<open>liabilities\<close> have no row. In
  \<open>unvalued_document\<close> the root has no value and \<open>note\<close> has an account id but no value:
  of its three nodes only \<open>cash\<close> has a row.
\<close>

theorem collected_rows_one_per_node_with_account_id_witness:
  "traversable_document exact_runtime example_document \<and>
   (\<exists>rows. collect_rows exact_runtime example_document = Inr rows \<and>
           get_all_child_values exact_runtime example_document = data_frame exact_runtime rows \<and>
           length rows = length (filter has_value_and_account_id (document_nodes example_document))
           \<and> length rows = 4) \<and>
   length (document_nodes example_document) = 6 \<and>
   traversable_document exact_runtime unvalued_document \<and>
   (\<exists>rows. collect_rows exact_runtime unvalued_document = Inr rows \<and>
           length rows = length (filter has_value_and_account_id (document_nodes unvalued_document))
           \<and> length rows = 1) \<and>
   length (document_nodes unvalued_document) = 3"
proof -
  from collected_rows_one_per_node_with_account_id [of exact_runtime example_document]
    example_is_traversable
  obtain rows where rows: "collect_rows exact_runtime example_document = Inr rows"
    and frame: "get_all_child_values exact_runtime example_document = data_frame exact_runtime rows"
    by blast
  from rows collected_rows_one_per_node_with_account_id [of exact_runtime example_document rows]
  have len: "length rows = length (filter has_value_and_account_id (document_nodes example_document))"
    by blast
  have four: "length (filter has_value_and_account_id (document_nodes example_document)) = 4"
    and six: "length (document_nodes example_document) = 6"
    by (simp_all add: document_nodes_def visits_of_example example_assets_def
          example_liabilities_def example_equity_def)
  from collected_rows_one_per_node_with_account_id [of exact_runtime unvalued_document]
    unvalued_is_traversable
  obtain rows' where rows': "collect_rows exact_runtime unvalued_document = Inr rows'"
    by blast
  from rows' collected_rows_one_per_node_with_account_id [of exact_runtime unvalued_document rows']
  have len': "length rows' = length (filter has_value_and_account_id (document_nodes unvalued_document))"
    by blast
  have one: "length (filter has_value_and_account_id (document_nodes unvalued_document)) = 1"
    and three: "length (document_nodes unvalued_document) = 3"
    by (simp_all add: visits_of_unvalued)
  from rows frame len four six rows' len' one three example_is_traversable unvalued_is_traversable
  show ?thesis by auto
qed

text \<open>
  The claim as stated, about the rows that the function produces, fails. In
  \<open>mixed_ids_document\<close> the nodes \<open>cash\<close> and \<open>ar\<close> have the account ids \<open>"A1"\<close> and \<open>7\<close>;
  the frame that is returned holds the text \<open>"7"\<close> for \<open>ar\<close>, not the node's \<open>7\<close>. In
  \<open>large_id_document\<close> one node has a value and an account id, and the call raises
  OverflowError and produces no row.
\<close>

theorem frame_rows_differ_from_nodes:
  "filter has_value_and_account_id (document_nodes mixed_ids_document) =
     [JObj [(''name'', JStr ''cash''), (''value'', JInt 60), (''account_id'', JStr ''A1'')],
      JObj [(''name'', JStr ''ar''), (''value'', JInt 40), (''account_id'', JInt 7)]] \<and>
   get_all_child_values exact_runtime mixed_ids_document =
     Inr [\<lparr>row_account_id = JStr ''A1'', row_path = ''assets/assets'',
           row_name = JStr ''cash'', row_value = 60\<rparr>,
          \<lparr>row_account_id = JStr ''7'', row_path = ''assets/assets'',
           row_name = JStr ''ar'', row_value = 40\<rparr>] \<and>
   (JStr ''7'' :: rat json) \<noteq> JInt 7 \<and>
   length (filter has_value_and_account_id (document_nodes large_id_document)) = 1 \<and>
   get_all_child_values exact_runtime large_id_document = Inl OverflowError"
  by (simp add: nodes_of_mixed frame_of_mixed nodes_of_large frame_of_large)

text \<open>
  Claim C1, as amended. The path of every row is the key of the section followed by the
  names of all ancestors of the node, from the root node of the section down to the
  node's parent, joined by \<open>/\<close>; the node's own name is not part of it. So the root node
  of a section, when it has a row, has the section key as path, and a direct child of
  the root node has the path \<open>section/name of the root node\<close>. This holds for the rows
  collected, from which the frame is built, and for the rows of the frame if the library
  stores the paths as they are.
\<close>

theorem row_path_is_section_and_ancestor_names:
  "(collect_rows F d = Inr rows \<longrightarrow>
      map row_path rows =
        map (\<lambda>(section, ancestors, node). path_of F section ancestors)
          (emitting (document_visits d))) \<and>
   (get_all_child_values F d = Inr frame \<longrightarrow>
      (\<exists>rows. collect_rows F d = Inr rows \<and> data_frame F rows = Inr frame \<and>
              map row_path rows =
                map (\<lambda>(section, ancestors, node). path_of F section ancestors)
                  (emitting (document_visits d)))) \<and>
   ((\<forall>rs fr. data_frame F rs = Inr fr \<longrightarrow> map row_path fr = map row_path rs) \<and>
    get_all_child_values F d = Inr frame \<longrightarrow>
      map row_path frame =
        map (\<lambda>(section, ancestors, node). path_of F section ancestors)
          (emitting (document_visits d))) \<and>
   path_of F section [] = section \<and>
   path_of F section [tree] = section @ ''/'' @ name_in_path F tree \<and>
   path_of F section (ancestors @ [parent])
     = path_of F section ancestors @ ''/'' @ name_in_path F parent"
proof -
  have paths: "map row_path rows =
        map (\<lambda>(section, ancestors, node). path_of F section ancestors)
          (emitting (document_visits d))"
    if "collect_rows F d = Inr rows" for rows
  proof -
    from that have "list_all2 (row_matches F) (emitting (document_visits d)) rows"
      by (rule rows_follow_visits)
    then show ?thesis
      by (induction rule: list_all2_induct) (auto simp: row_matches_def)
  qed
  have one: "path_of F section [tree] = section @ ''/'' @ name_in_path F tree"
    by (simp add: path_of_def)
  show ?thesis
    using paths one path_of_simps by (auto simp: frame_from_rows)
qed

theorem row_path_is_section_and_ancestor_names_witness:
  "map (\<lambda>(section, ancestors, node). path_of exact_runtime section ancestors)
       (emitting (document_visits example_document))
     = [''assets/assets'', ''assets/assets'', ''liabilities/liabilities'', ''equity''] \<and>
   map row_path
     [\<lparr>row_account_id = JStr ''A1'', row_path = ''assets/assets'',
        row_name = JStr ''cash'', row_value = (60 :: rat)\<rparr>,
      \<lparr>row_account_id = JStr ''A2'', row_path = ''assets/assets'',
        row_name = JStr ''ar'', row_value = 40\<rparr>,
      \<lparr>row_account_id = JStr ''L1'', row_path = ''liabilities/liabilities'',
        row_name = JStr ''ap'', row_value = 40\<rparr>,
      \<lparr>row_account_id = JStr ''E1'', row_path = ''equity'',
        row_name = JStr ''equity'', row_value = 60\<rparr>]
     = map (\<lambda>(section, ancestors, node). path_of exact_runtime section ancestors)
         (emitting (document_visits example_document))"
proof -
  have keeps: "\<forall>rs fr. data_frame exact_runtime rs = Inr fr \<longrightarrow> map row_path fr = map row_path rs"
    by (simp add: stored_frame_paths)
  from row_path_is_section_and_ancestor_names [of exact_runtime example_document _ _ "[]"]
    keeps frame_of_example
  have "map row_path
     [\<lparr>row_account_id = JStr ''A1'', row_path = ''assets/assets'',
        row_name = JStr ''cash'', row_value = (60 :: rat)\<rparr>,
      \<lparr>row_account_id = JStr ''A2'', row_path = ''assets/assets'',
        row_name = JStr ''ar'', row_value = 40\<rparr>,
      \<lparr>row_account_id = JStr ''L1'', row_path = ''liabilities/liabilities'',
        row_name = JStr ''ap'', row_value = 40\<rparr>,
      \<lparr>row_account_id = JStr ''E1'', row_path = ''equity'',
        row_name = JStr ''equity'', row_value = 60\<rparr>]
     = map (\<lambda>(section, ancestors, node). path_of exact_runtime section ancestors)
         (emitting (document_visits example_document))"
    by blast
  then show ?thesis by simp
qed


text \<open>
  The claim as stated fails on the example of the specification: \<open>cash\<close> and \<open>ar\<close> are
  direct children of the root node of \<open>assets\<close>, and their rows have the path
  \<open>assets/assets\<close>, not \<open>assets\<close>; likewise \<open>ap\<close> has \<open>liabilities/liabilities\<close>.
\<close>

theorem direct_child_path_is_not_the_section_name:
  "children_of example_assets =
     [JObj [(''name'', JStr ''cash''), (''value'', JInt 60), (''account_id'', JStr ''A1'')],
      JObj [(''name'', JStr ''ar''), (''value'', JInt 40), (''account_id'', JStr ''A2'')]] \<and>
   get_all_child_values exact_runtime example_document =
     Inr [\<lparr>row_account_id = JStr ''A1'', row_path = ''assets/assets'',
           row_name = JStr ''cash'', row_value = 60\<rparr>,
          \<lparr>row_account_id = JStr ''A2'', row_path = ''assets/assets'',
           row_name = JStr ''ar'', row_value = 40\<rparr>,
          \<lparr>row_account_id = JStr ''L1'', row_path = ''liabilities/liabilities'',
           row_name = JStr ''ap'', row_value = 40\<rparr>,
          \<lparr>row_account_id = JStr ''E1'', row_path = ''equity'',
           row_name = JStr ''equity'', row_value = 60\<rparr>] \<and>
   ''assets/assets'' \<noteq> ''assets''"
  by (simp add: frame_of_example) (simp add: example_assets_def)

text \<open>
  Claim C10, as amended. On a document (a dict) that lacks some of the keys \<open>assets\<close>,
  \<open>liabilities\<close>, \<open>equity\<close>, \<open>get_all_child_values\<close> does not fail for that: a missing
  section contributes no rows and no error, and the list from which the data frame is
  built is made of the rows of the sections that are present, in the order of the
  sections. The call can still fail, in the traversal of a section that is present or
  in \<open>pl.DataFrame\<close> on the rows collected; when the sections that are present can be
  walked, the traversal completes and the call does what \<open>pl.DataFrame\<close> does on the
  rows collected.
\<close>

theorem absent_sections_are_skipped:
  "get_all_child_values F (JObj kvs) =
     and_then (section_rows F (JObj kvs) ''assets'') (\<lambda>a.
     and_then (section_rows F (JObj kvs) ''liabilities'') (\<lambda>l.
     and_then (section_rows F (JObj kvs) ''equity'') (\<lambda>e.
     data_frame F (a @ l @ e)))) \<and>
   (map_of kvs section = None \<longrightarrow> section_rows F (JObj kvs) section = Inr []) \<and>
   (traversable_document F (JObj kvs) \<longrightarrow>
      (\<exists>rows. collect_rows F (JObj kvs) = Inr rows \<and>
              get_all_child_values F (JObj kvs) = data_frame F rows))"
proof (intro conjI impI)
  show "get_all_child_values F (JObj kvs) =
     and_then (section_rows F (JObj kvs) ''assets'') (\<lambda>a.
     and_then (section_rows F (JObj kvs) ''liabilities'') (\<lambda>l.
     and_then (section_rows F (JObj kvs) ''equity'') (\<lambda>e.
     data_frame F (a @ l @ e))))"
    by (rule frame_decomposition)
next
  assume "map_of kvs section = None"
  then show "section_rows F (JObj kvs) section = Inr []"
    by (simp add: section_rows_def)
next
  assume "traversable_document F (JObj kvs)"
  then obtain rows where "collect_rows F (JObj kvs) = Inr rows"
    using collect_rows_total by blast
  then show "\<exists>rows. collect_rows F (JObj kvs) = Inr rows \<and>
              get_all_child_values F (JObj kvs) = data_frame F rows"
    by (simp add: get_all_child_values_def)
qed

text \<open>
  \<open>partial_document\<close> has only \<open>liabilities\<close> and yields its one row; the empty dict
  yields no rows.
\<close>

theorem absent_sections_are_skipped_witness:
  "get_all_child_values exact_runtime partial_document =
     Inr [\<lparr>row_account_id = JStr ''L1'', row_path = ''liabilities/liabilities'',
           row_name = JStr ''ap'', row_value = 40\<rparr>] \<and>
   get_all_child_values exact_runtime (JObj []) = Inr [] \<and>
   section_rows exact_runtime partial_document ''assets'' = Inr [] \<and>
   traversable_document exact_runtime partial_document \<and>
   (\<exists>rows. collect_rows exact_runtime partial_document = Inr rows \<and>
           get_all_child_values exact_runtime partial_document = data_frame exact_runtime rows)"
proof -
  have wf: "traversable_document exact_runtime partial_document"
    by (simp add: traversable_document_def partial_document_def example_sections_traversable)
  have l: "section_rows exact_runtime partial_document ''liabilities'' =
     Inr [\<lparr>row_account_id = JStr ''L1'', row_path = ''liabilities/liabilities'',
           row_name = JStr ''ap'', row_value = 40\<rparr>]"
    by (simp add: section_rows_def partial_document_def example_liabilities_def
          traverse_node.simps emit_condition_def row_dict_def)
  note skipped = absent_sections_are_skipped
                   [of exact_runtime "[(''liabilities'', example_liabilities)]",
                    folded partial_document_def]
  have a: "section_rows exact_runtime partial_document ''assets'' = Inr []"
    using skipped [of "''assets''"] by (simp add: partial_document_def)
  have e: "section_rows exact_runtime partial_document ''equity'' = Inr []"
    using skipped [of "''equity''"] by (simp add: partial_document_def)
  from skipped [of "''assets''"]
  have "get_all_child_values exact_runtime partial_document =
     and_then (section_rows exact_runtime partial_document ''assets'') (\<lambda>a.
     and_then (section_rows exact_runtime partial_document ''liabilities'') (\<lambda>l.
     and_then (section_rows exact_runtime partial_document ''equity'') (\<lambda>e.
     data_frame exact_runtime (a @ l @ e))))"
    by (rule conjunct1)
  then have p: "get_all_child_values exact_runtime partial_document =
     Inr [\<lparr>row_account_id = JStr ''L1'', row_path = ''liabilities/liabilities'',
           row_name = JStr ''ap'', row_value = 40\<rparr>]"
    by (simp add: a l e stored_frame_def stored_column_def too_large_def is_text_def
          is_integer_def)
  have t: "\<exists>rows. collect_rows exact_runtime partial_document = Inr rows \<and>
           get_all_child_values exact_runtime partial_document = data_frame exact_runtime rows"
    using skipped [of "''assets''"] wf by blast
  have "get_all_child_values exact_runtime (JObj []) = Inr []"
    using absent_sections_are_skipped [of exact_runtime "[]" "''assets''"]
    by (simp add: section_rows_def stored_frame_def stored_column_def)
  with p a wf t show ?thesis by simp
qed

text \<open>
  The claim as stated fails: \<open>large_id_document\<close> has neither \<open>liabilities\<close> nor
  \<open>equity\<close>, its one section can be walked, and the call raises OverflowError when the
  data frame is built. In \<open>nameless_document\<close>, which lacks the same two sections, the
  call fails in the traversal of \<open>assets\<close>.
\<close>

theorem call_fails_with_sections_missing:
  "py_contains ''liabilities'' large_id_document = Inr False \<and>
   py_contains ''equity'' large_id_document = Inr False \<and>
   traversable_document exact_runtime large_id_document \<and>
   collect_rows exact_runtime large_id_document =
     Inr [\<lparr>row_account_id = JInt (2 ^ 200), row_path = ''assets'',
           row_name = JStr ''assets'', row_value = 1\<rparr>] \<and>
   get_all_child_values exact_runtime large_id_document = Inl OverflowError \<and>
   py_contains ''liabilities'' nameless_document = Inr False \<and>
   py_contains ''equity'' nameless_document = Inr False \<and>
   get_all_child_values exact_runtime nameless_document = Inl (KeyError ''name'')"
  by (simp add: large_id_is_traversable rows_of_large frame_of_large nameless_fails)
     (simp add: large_id_document_def nameless_document_def)

end
